theory Spec2Isabelle
  imports Main "HOL-Library.AList" "HOL-Library.Sublist"
begin

section \<open>Python values used by \<open>src/log/stash.py\<close>\<close>

text \<open>
  The keys of the filter set come from \<open>set(json.load(f))\<close>. For a JSON object they are
  strings; for a JSON array they may also be numbers or \<open>null\<close>. Only a string can be
  the left operand of \<open>key in line\<close>; any other key makes that expression raise
  \<open>TypeError\<close>. JSON booleans and floating-point numbers behave like \<open>KInt\<close> keys in this
  program (hashable, not strings) and are not modelled separately.
\<close>

datatype fkey = KStr string | KInt int | KNull

datatype exn =
    TypeError string
  | KeyError string
  | AttributeError string
  | ZeroDivisionError string
  | IsADirectoryError string
  | FileExistsError string
  | FileNotFoundError string
  | UnicodeDecodeError string
  | RecursionError string

fun exn_str :: "exn \<Rightarrow> string" where
  "exn_str (TypeError m) = m"
| "exn_str (KeyError m) = m"
| "exn_str (AttributeError m) = m"
| "exn_str (ZeroDivisionError m) = m"
| "exn_str (IsADirectoryError m) = m"
| "exn_str (FileExistsError m) = m"
| "exn_str (FileNotFoundError m) = m"
| "exn_str (UnicodeDecodeError m) = m"
| "exn_str (RecursionError m) = m"

fun is_str :: "fkey \<Rightarrow> bool" where
  "is_str (KStr s) = True"
| "is_str k = False"

fun type_name :: "fkey \<Rightarrow> string" where
  "type_name (KStr s) = ''str''"
| "type_name (KInt n) = ''int''"
| "type_name KNull = ''NoneType''"

definition newline :: string where
  "newline = [CHR 0x0A]"

definition apostrophe :: string where
  "apostrophe = [CHR 0x27]"

text \<open>\<open>key in line\<close> for two strings: \<open>key\<close> occurs in \<open>line\<close> as a contiguous substring.\<close>

fun str_in :: "string \<Rightarrow> string \<Rightarrow> bool" where
  "str_in k [] = (k = [])"
| "str_in k (c # cs) = (prefix k (c # cs) \<or> str_in k cs)"

text \<open>
  A Python \<open>dict\<close> keeps insertion order; it is an association list with distinct keys,
  \<open>d[k] = v\<close> is \<open>AList.update k v d\<close> (overwrite in place, or append a new key), and
  \<open>d.get(k, 0)\<close> is \<open>dict_get d k\<close>.
\<close>

type_synonym counts = "(fkey \<times> nat) list"

definition dict_get :: "counts \<Rightarrow> fkey \<Rightarrow> nat" where
  "dict_get d k = (case map_of d k of None \<Rightarrow> 0 | Some c \<Rightarrow> c)"

section \<open>\<open>Logstash.worker_function\<close>\<close>

text \<open>
  The second component of the worker's result is the dictionary of local counts, or, when
  the body raised, the string \<open>"Error: ..."\<close>.
\<close>

datatype worker_counts = Counts counts | Msg string

text \<open>\<open>{key: 0 for key in filter_keys}\<close>, the keys taken in the iteration order of the set.\<close>

definition init_counts :: "fkey list \<Rightarrow> counts" where
  "init_counts keys = fold (\<lambda>k d. AList.update k 0 d) keys []"

text \<open>
  The inner loop \<open>for key in filter_keys: if key in line: ...; break\<close>: the first key
  contained in the line, \<open>None\<close> when the loop ends without a \<open>break\<close>, or the
  \<open>TypeError\<close> raised by \<open>key in line\<close> for a key that is not a string.
\<close>

fun scan_keys :: "string \<Rightarrow> fkey list \<Rightarrow> exn + fkey option" where
  "scan_keys line [] = Inr None"
| "scan_keys line (KStr s # ks) =
     (if str_in s line then Inr (Some (KStr s)) else scan_keys line ks)"
| "scan_keys line (k # ks) =
     Inl (TypeError (apostrophe @ ''in <string>'' @ apostrophe @
                     '' requires string as left operand, not '' @ type_name k))"

text \<open>\<open>local_counts[key] += 1\<close>; a missing key would raise \<open>KeyError\<close>.\<close>

definition incr :: "fkey \<Rightarrow> counts \<Rightarrow> exn + counts" where
  "incr k d = (case map_of d k of
                 None \<Rightarrow> Inl (KeyError (type_name k))
               | Some c \<Rightarrow> Inr (AList.update k (c + 1) d))"

text \<open>The outer loop \<open>for line in lines\<close>, on the state \<open>(filtered_lines, local_counts)\<close>.\<close>

fun scan_lines ::
  "string list \<Rightarrow> fkey list \<Rightarrow> string list \<times> counts \<Rightarrow> exn + (string list \<times> counts)" where
  "scan_lines [] keys st = Inr st"
| "scan_lines (line # rest) keys (filtered_lines, local_counts) =
     (case scan_keys line keys of
        Inl e \<Rightarrow> Inl e
      | Inr None \<Rightarrow> scan_lines rest keys (filtered_lines, local_counts)
      | Inr (Some key) \<Rightarrow>
          (case incr key local_counts of
             Inl e \<Rightarrow> Inl e
           | Inr local_counts' \<Rightarrow>
               scan_lines rest keys (filtered_lines @ [line @ newline], local_counts')))"

text \<open>
  \<open>worker_function(args)\<close> with \<open>args = (lines, filter_keys)\<close>; \<open>filter_keys\<close> is given as
  the list of the set's elements in the order in which this worker iterates over them.
  \<open>except Exception as e: return [], f"Error: {str(e)}"\<close>.
\<close>

definition worker_function :: "string list \<times> fkey list \<Rightarrow> string list \<times> worker_counts" where
  "worker_function args =
     (case args of (lines, filter_keys) \<Rightarrow>
        (case scan_lines lines filter_keys ([], init_counts filter_keys) of
           Inl e \<Rightarrow> ([], Msg (''Error: '' @ exn_str e))
         | Inr (filtered_lines, local_counts) \<Rightarrow> (filtered_lines, Counts local_counts)))"

section \<open>\<open>Logstash._parallel_filter\<close>\<close>

text \<open>
  A file's content is its bytes. The log is opened in text mode with the default
  \<open>newline=None\<close>: on reading, a carriage return followed by a line feed and a carriage
  return alone both become one line feed (universal newlines). \<open>infile.readlines()\<close>
  then cuts the text after every line feed and keeps it at the end of each line; a last
  line without a terminator is kept as it is. \<open>_count_lines\<close> opens the file in binary
  mode, where iterating cuts after line feeds only, with no translation.
\<close>

fun universal_newlines :: "string \<Rightarrow> string" where
  "universal_newlines [] = []"
| "universal_newlines [c] = (if c = CHR 0x0D then [CHR 0x0A] else [c])"
| "universal_newlines (c # d # ds) =
     (if c = CHR 0x0D then
        (if d = CHR 0x0A then CHR 0x0A # universal_newlines ds
         else CHR 0x0A # universal_newlines (d # ds))
      else c # universal_newlines (d # ds))"

fun readlines_from :: "string \<Rightarrow> string \<Rightarrow> string list" where
  "readlines_from cur [] = (if cur = [] then [] else [cur])"
| "readlines_from cur (c # cs) =
     (if c = CHR 0x0A then (cur @ [c]) # readlines_from [] cs
      else readlines_from (cur @ [c]) cs)"

definition readlines :: "string \<Rightarrow> string list" where
  "readlines content = readlines_from [] (universal_newlines content)"

definition binary_lines :: "string \<Rightarrow> string list" where
  "binary_lines content = readlines_from [] content"

text \<open>\<open>range(start, stop, step)\<close> for a positive step, and the slice \<open>xs[i:j]\<close>.\<close>

function py_range :: "nat \<Rightarrow> nat \<Rightarrow> nat \<Rightarrow> nat list" where
  "py_range i stop step =
     (if step = 0 \<or> stop \<le> i then [] else i # py_range (i + step) stop step)"
  by pat_completeness auto
termination
  by (relation "measure (\<lambda>(i, stop, step). stop - i)") auto

definition slice :: "'a list \<Rightarrow> nat \<Rightarrow> nat \<Rightarrow> 'a list" where
  "slice xs i j = take (j - i) (drop i xs)"

text \<open>\<open>min(multiprocessing.cpu_count(), len(filter_keys) or 1)\<close>\<close>

definition num_workers :: "nat \<Rightarrow> fkey list \<Rightarrow> nat" where
  "num_workers cpu filter_keys =
     min cpu (if length filter_keys = 0 then 1 else length filter_keys)"

text \<open>\<open>max(1, total_lines // num_workers)\<close>; the caller has excluded \<open>num_workers = 0\<close>.\<close>

definition chunk_size :: "nat \<Rightarrow> nat \<Rightarrow> nat" where
  "chunk_size total_lines workers = max 1 (total_lines div workers)"

text \<open>
  The chunks handed to \<open>pool.apply_async\<close>, in the order of the loop
  \<open>for i in range(0, total_lines, chunk_size): chunk = lines[i:i + chunk_size]\<close>.
\<close>

definition chunks :: "string list \<Rightarrow> nat \<Rightarrow> string list list" where
  "chunks lines step =
     map (\<lambda>i. slice lines i (i + step)) (py_range 0 (length lines) step)"

text \<open>
  The state of the collecting loop: the text written to \<open>outfile\<close> so far,
  \<open>matched_lines\<close>, \<open>filter_counts\<close>, and the messages passed to \<open>sys.stderr.write\<close>.
\<close>

record agg =
  outfile :: string
  matched_lines :: nat
  filter_counts :: counts
  stderr_log :: "string list"

definition agg_init :: agg where
  "agg_init = \<lparr>outfile = [], matched_lines = 0, filter_counts = [], stderr_log = []\<rparr>"

text \<open>
  \<open>for key, count in worker_counts.items():
       filter_counts[key] = filter_counts.get(key, 0) + count\<close>
\<close>

definition merge_counts :: "counts \<Rightarrow> counts \<Rightarrow> counts" where
  "merge_counts worker_counts fc =
     fold (\<lambda>(key, count) d. AList.update key (dict_get d key + count) d) worker_counts fc"

text \<open>
  One pass of the body of \<open>for result in results\<close>. The result of \<open>result.get()\<close> is the
  pair the worker returned. \<open>outfile.writelines(filtered)\<close> and
  \<open>matched_lines += len(filtered)\<close> come first; when the second component is a string,
  \<open>worker_counts.items()\<close> raises \<open>AttributeError\<close>, which the \<open>except\<close> clause writes to
  \<open>sys.stderr\<close>.
\<close>

definition worker_error :: string where
  "worker_error = ''Worker error: '' @ apostrophe @ ''str'' @ apostrophe @
     '' object has no attribute '' @ apostrophe @ ''items'' @ apostrophe @ newline"

definition collect :: "agg \<Rightarrow> string list \<times> worker_counts \<Rightarrow> agg" where
  "collect st result =
     (case result of (filtered, worker_counts) \<Rightarrow>
        (let st1 = st\<lparr>outfile := outfile st @ concat filtered,
                      matched_lines := matched_lines st + length filtered\<rparr>
         in case worker_counts of
              Counts d \<Rightarrow> st1\<lparr>filter_counts := merge_counts d (filter_counts st1)\<rparr>
            | Msg m \<Rightarrow> st1\<lparr>stderr_log := stderr_log st1 @ [worker_error]\<rparr>))"

text \<open>
  The workers' results in submission order. \<open>order j\<close> is the order in which the worker
  that runs partition \<open>j\<close> iterates over the set \<open>filter_keys\<close> (the iteration order of a
  Python set of strings depends on the hash seed of the process that holds it).
\<close>

definition run_workers ::
  "(nat \<Rightarrow> fkey list \<Rightarrow> fkey list) \<Rightarrow> string list list \<Rightarrow> fkey list \<Rightarrow>
   (string list \<times> worker_counts) list" where
  "run_workers order tasks filter_keys =
     map (\<lambda>(j, chunk). worker_function (chunk, order j filter_keys)) (enumerate 0 tasks)"

text \<open>
  The part of \<open>_parallel_filter\<close> between \<open>infile.readlines()\<close> and the \<open>return\<close>:
  planning, dispatch and collection. \<open>total_lines // num_workers\<close> raises
  \<open>ZeroDivisionError\<close> for zero workers.
\<close>

definition filter_lines ::
  "nat \<Rightarrow> (nat \<Rightarrow> fkey list \<Rightarrow> fkey list) \<Rightarrow> string list \<Rightarrow> fkey list \<Rightarrow> exn + agg" where
  "filter_lines cpu order lines filter_keys =
     (let workers = num_workers cpu filter_keys;
          total_lines = length lines
      in if workers = 0 then Inl (ZeroDivisionError ''integer division or modulo by zero'')
         else Inr (foldl collect agg_init
                     (run_workers order (chunks lines (chunk_size total_lines workers))
                        filter_keys)))"

section \<open>The filter file\<close>

text \<open>The value returned by \<open>json.load\<close> (numbers restricted to integers).\<close>

datatype json =
    JObject "(string \<times> json) list"
  | JArray "json list"
  | JString string
  | JInt int
  | JNull

text \<open>An element added to a set must be hashable; a \<open>dict\<close> or a \<open>list\<close> is not.\<close>

fun hashable :: "json \<Rightarrow> exn + fkey" where
  "hashable (JString s) = Inr (KStr s)"
| "hashable (JInt n) = Inr (KInt n)"
| "hashable JNull = Inr KNull"
| "hashable (JObject kvs) =
     Inl (TypeError (''unhashable type: '' @ apostrophe @ ''dict'' @ apostrophe))"
| "hashable (JArray vs) =
     Inl (TypeError (''unhashable type: '' @ apostrophe @ ''list'' @ apostrophe))"

fun hashables :: "json list \<Rightarrow> exn + fkey list" where
  "hashables [] = Inr []"
| "hashables (v # vs) =
     (case hashable v of
        Inl e \<Rightarrow> Inl e
      | Inr k \<Rightarrow> (case hashables vs of Inl e \<Rightarrow> Inl e | Inr ks \<Rightarrow> Inr (k # ks)))"

text \<open>
  \<open>set(filters)\<close>: iterating a \<open>dict\<close> yields its keys, a \<open>list\<close> its elements, a \<open>str\<close>
  its characters; a number or \<open>None\<close> is not iterable. The set is represented by the
  list of its elements without repetition; the order of this list carries no meaning (the
  order in which a worker iterates is given separately).
\<close>

fun set_of :: "json \<Rightarrow> exn + fkey list" where
  "set_of (JObject kvs) = Inr (remdups (map (\<lambda>kv. KStr (fst kv)) kvs))"
| "set_of (JArray vs) =
     (case hashables vs of Inl e \<Rightarrow> Inl e | Inr ks \<Rightarrow> Inr (remdups ks))"
| "set_of (JString s) = Inr (remdups (map (\<lambda>c. KStr [c]) s))"
| "set_of (JInt n) =
     Inl (TypeError (apostrophe @ ''int'' @ apostrophe @ '' object is not iterable''))"
| "set_of JNull =
     Inl (TypeError (apostrophe @ ''NoneType'' @ apostrophe @ '' object is not iterable''))"

section \<open>The file system, \<open>get_info\<close> and the result payload\<close>

text \<open>
  A path names a regular file with its content (its bytes), a directory, or nothing.
  Paths are plain strings; the directory hierarchy, permissions and disk space are not
  modelled. A text read from a file is kept as its UTF-8 bytes; bytes that are not UTF-8
  make the read raise \<open>UnicodeDecodeError\<close>. Text written to a file is stored as it is,
  as where \<open>os.linesep\<close> is the line feed.
\<close>

datatype node = File string | Dir

type_synonym fs = "string \<Rightarrow> node option"

text \<open>
  The dictionary returned by \<open>get_info\<close>. \<open>file_size\<close> is the number \<open>N\<close> of the text
  \<open>"N bytes"\<close>. \<open>_compute_file_hash\<close> and \<open>_count_lines\<close> catch every exception and
  return its text instead; the entry \<open>lines\<close>, here \<open>line_count\<close>, is therefore a count
  or a message.
\<close>

record info =
  file_name :: string
  file_size :: nat
  created_at :: string
  modified_at :: string
  hash :: string
  line_count :: "string + nat"

datatype file_info = InfoError string | Info info

record meta =
  meta_filter :: string
  meta_filtered_at :: string
  meta_file :: file_info

text \<open>
  \<open>hits\<close> is a dictionary from \<open>"total"\<close> and from filter keys to numbers, in insertion
  order. The key \<open>"total"\<close> and a filter key equal to the string \<open>total\<close> are the same
  dictionary key.
\<close>

record payload =
  hits :: counts
  meta :: meta

text \<open>
  What the program takes from its libraries and from the machine:
  \<^item> \<open>cpu_count\<close>: \<open>multiprocessing.cpu_count()\<close>;
  \<^item> \<open>iter_order j\<close>: the order in which the worker of partition \<open>j\<close> iterates over a set;
  \<^item> \<open>json_load\<close>: \<open>open(filter_file, 'r', encoding='utf-8')\<close> and \<open>json.load\<close> on the
    file's bytes: the value loaded, the text of the \<open>JSONDecodeError\<close> raised, or another
    exception raised (\<open>UnicodeDecodeError\<close> for bytes that are not UTF-8, \<open>RecursionError\<close>
    for a text nested too deep);
  \<^item> \<open>utf8_error\<close>: \<open>None\<close> when the bytes decode as UTF-8, otherwise the text of the
    \<open>UnicodeDecodeError\<close> the codec raises;
  \<^item> \<open>json_dump\<close>: the text \<open>json.dump(result_payload, meta, indent=4)\<close> writes;
  \<^item> \<open>directory\<close>: \<open>self.directory\<close>; \<open>path_stem\<close>, \<open>path_name\<close>: \<open>Path.stem\<close>, \<open>Path.name\<close>;
  \<^item> \<open>now_stamp\<close>: \<open>datetime.now().strftime("%Y%m%d_%H%M%S")\<close> at the first call of
    \<open>datetime.now()\<close>, \<open>now_text\<close>: \<open>strftime("%d-%m-%Y %H:%M:%S")\<close> at the second;
  \<^item> \<open>ctime_text\<close>, \<open>mtime_text\<close>: the formatted \<open>st_ctime\<close> and \<open>st_mtime\<close> of a path;
  \<^item> \<open>dir_size\<close>: the \<open>st_size\<close> of a path that is a directory;
  \<^item> \<open>xxh3_128\<close>: the hex digest of \<open>xxhash.xxh3_128\<close> over a file's bytes.
\<close>

datatype load_result = Loaded json | JSONDecodeError string | LoadRaised exn

record env =
  cpu_count :: nat
  iter_order :: "nat \<Rightarrow> fkey list \<Rightarrow> fkey list"
  json_load :: "string \<Rightarrow> load_result"
  utf8_error :: "string \<Rightarrow> string option"
  json_dump :: "payload \<Rightarrow> string"
  directory :: string
  path_stem :: "string \<Rightarrow> string"
  path_name :: "string \<Rightarrow> string"
  now_stamp :: string
  now_text :: string
  ctime_text :: "string \<Rightarrow> string"
  mtime_text :: "string \<Rightarrow> string"
  dir_size :: "string \<Rightarrow> nat"
  xxh3_128 :: "string \<Rightarrow> string"

definition not_found :: "string \<Rightarrow> string \<Rightarrow> string" where
  "not_found what path = what @ '' file '' @ apostrophe @ path @ apostrophe @ '' not found.''"

definition is_a_directory :: "string \<Rightarrow> exn" where
  "is_a_directory path =
     IsADirectoryError (''[Errno 21] Is a directory: '' @ apostrophe @ path @ apostrophe)"

definition get_info :: "env \<Rightarrow> fs \<Rightarrow> string \<Rightarrow> file_info" where
  "get_info e files file_path =
     (case files file_path of
        None \<Rightarrow> InfoError (not_found ''Log'' file_path)
      | Some Dir \<Rightarrow>
          Info \<lparr>file_name = path_name e file_path, file_size = dir_size e file_path,
                created_at = ctime_text e file_path, modified_at = mtime_text e file_path,
                hash = ''Error computing hash: '' @ exn_str (is_a_directory file_path),
                line_count = Inl (''Error counting lines: '' @ exn_str (is_a_directory file_path))\<rparr>
      | Some (File content) \<Rightarrow>
          Info \<lparr>file_name = path_name e file_path, file_size = length content,
                created_at = ctime_text e file_path, modified_at = mtime_text e file_path,
                hash = xxh3_128 e content,
                line_count = Inr (length (binary_lines content))\<rparr>)"

text \<open>
  \<open>_parallel_filter(log_file, output_file, filter_keys)\<close> on the file system: the result
  or the exception raised, the file system afterwards, and what was written to
  \<open>sys.stderr\<close>. \<open>open(log_file, "r")\<close> comes first, then \<open>open(output_file, "w")\<close>, which
  creates or truncates the output file; \<open>infile.readlines()\<close> reads after that and raises
  \<open>UnicodeDecodeError\<close> when the log is not UTF-8.
\<close>

definition parallel_filter ::
  "env \<Rightarrow> fs \<Rightarrow> string \<Rightarrow> string \<Rightarrow> fkey list \<Rightarrow> (exn + nat \<times> counts) \<times> fs \<times> string list" where
  "parallel_filter e files log_file output_file filter_keys =
     (case files log_file of
        None \<Rightarrow>
          (Inl (FileNotFoundError (''[Errno 2] No such file or directory: '' @ apostrophe @
                                   log_file @ apostrophe)), files, [])
      | Some Dir \<Rightarrow> (Inl (is_a_directory log_file), files, [])
      | Some (File before) \<Rightarrow>
          (case files output_file of
             Some Dir \<Rightarrow> (Inl (is_a_directory output_file), files, [])
           | _ \<Rightarrow>
               (let files1 = files(output_file \<mapsto> File []);
                    content = (case files1 log_file of Some (File c) \<Rightarrow> c | _ \<Rightarrow> [])
                in case utf8_error e content of
                     Some m \<Rightarrow> (Inl (UnicodeDecodeError m), files1, [])
                   | None \<Rightarrow>
                      (case filter_lines (cpu_count e) (iter_order e) (readlines content)
                              filter_keys of
                         Inl x \<Rightarrow> (Inl x, files1, [])
                       | Inr st \<Rightarrow>
                           (Inr (matched_lines st, filter_counts st),
                            files1(output_file \<mapsto> File (outfile st)),
                            stderr_log st)))))"

section \<open>\<open>Logstash.filter\<close>\<close>

datatype outcome =
    ErrorDict string
  | WarningDict string
  | Payload payload
  | Raised exn

text \<open>
  \<open>sorted(filter_counts.items(), key=lambda item: item[1], reverse=True)\<close>: Python's sort
  is stable, also with \<open>reverse=True\<close> (items with equal counts keep their order).
\<close>

definition sorted_desc :: "counts \<Rightarrow> counts" where
  "sorted_desc items = rev (sort_key snd (rev items))"

text \<open>
  \<open>{"total": matched_lines, **{key: count for key, count in sorted(...) if count > 0}}\<close>:
  the entries of the comprehension are stored one after the other into the dictionary that
  already holds \<open>"total"\<close>.
\<close>

definition make_hits :: "nat \<Rightarrow> counts \<Rightarrow> counts" where
  "make_hits matched fc =
     fold (\<lambda>(key, count) d. AList.update key count d)
          (fold (\<lambda>(key, count) d. AList.update key count d)
                [(key, count) \<leftarrow> sorted_desc fc. count > 0] [])
          [(KStr ''total'', matched)]"

definition log_folder :: "env \<Rightarrow> string \<Rightarrow> string" where
  "log_folder e log_file =
     directory e @ ''/'' @ ''../../data/filtered_logs'' @ ''/'' @ path_stem e log_file"

definition output_file :: "env \<Rightarrow> string \<Rightarrow> string" where
  "output_file e log_file =
     log_folder e log_file @ ''/'' @ path_stem e log_file @ ''_'' @ now_stamp e @
     ''.filtered.log''"

definition metadata_file :: "env \<Rightarrow> string \<Rightarrow> string" where
  "metadata_file e log_file =
     log_folder e log_file @ ''/'' @ path_stem e log_file @ ''_'' @ now_stamp e @
     ''.metadata.json''"

text \<open>
  \<open>filter(log_file_path, filter_file_path, overwrite)\<close>: the returned dictionary or the
  exception that leaves the method, the file system afterwards, and the text written to
  \<open>sys.stderr\<close>. The \<open>try\<close> around the loading of the filter file has the single clause
  \<open>except JSONDecodeError\<close>: any other exception raised there leaves the method.
  \<open>os.makedirs(log_folder, exist_ok=True)\<close> raises \<open>FileExistsError\<close> when the path is a
  regular file.
\<close>

definition filter_log ::
  "env \<Rightarrow> fs \<Rightarrow> string \<Rightarrow> string \<Rightarrow> bool \<Rightarrow> outcome \<times> fs \<times> string list" where
  "filter_log e files log_file filter_file overwrite =
     (if files log_file = None then (ErrorDict (not_found ''Log'' log_file), files, [])
      else if files filter_file = None then
        (ErrorDict (not_found ''Filter'' filter_file), files, [])
      else case files filter_file of
        Some Dir \<Rightarrow> (Raised (is_a_directory filter_file), files, [])
      | Some (File text) \<Rightarrow>
       (case json_load e text of
          JSONDecodeError m \<Rightarrow>
            (ErrorDict (''Invalid JSON in filter file: '' @ m), files, [])
        | LoadRaised x \<Rightarrow> (Raised x, files, [])
        | Loaded filters \<Rightarrow>
         (case set_of filters of
            Inl x \<Rightarrow> (Raised x, files, [])
          | Inr filter_keys \<Rightarrow>
             if filter_keys = [] then
               (WarningDict ''No filter keys found in filter file. Skipping filtering.'',
                files, [])
             else if files (log_folder e log_file) \<noteq> None \<and> \<not> overwrite then
               (ErrorDict (''Folder '' @ apostrophe @ log_folder e log_file @ apostrophe @
                           '' already exists. Use overwrite=True to proceed.''), files, [])
             else
              (case files (log_folder e log_file) of
                 Some (File c) \<Rightarrow>
                   (Raised (FileExistsError (''[Errno 17] File exists: '' @ apostrophe @
                              log_folder e log_file @ apostrophe)), files, [])
               | _ \<Rightarrow>
                  (let files1 = files(log_folder e log_file \<mapsto> Dir)
                   in case parallel_filter e files1 log_file (output_file e log_file)
                             filter_keys of
                        (Inl x, files2, err) \<Rightarrow> (Raised x, files2, err)
                      | (Inr (matched, fc), files2, err) \<Rightarrow>
                         (let result_payload =
                                \<lparr>hits = make_hits matched fc,
                                 meta = \<lparr>meta_filter = path_name e filter_file,
                                         meta_filtered_at = now_text e,
                                         meta_file = get_info e files2 log_file\<rparr>\<rparr>
                          in case files2 (metadata_file e log_file) of
                               Some Dir \<Rightarrow>
                                 (Raised (is_a_directory (metadata_file e log_file)),
                                  files2, err)
                             | _ \<Rightarrow>
                                 (Payload result_payload,
                                  files2(metadata_file e log_file \<mapsto>
                                           File (json_dump e result_payload)),
                                  err)))))))"

section \<open>Notions of the specification\<close>

text \<open>
  A filter key is contained in a line when it is a string that occurs in it. The first
  match of a line is the first key, in the worker's iteration order, contained in it.
\<close>

fun contained :: "fkey \<Rightarrow> string \<Rightarrow> bool" where
  "contained (KStr s) line = str_in s line"
| "contained k line = False"

definition first_match :: "string \<Rightarrow> fkey list \<Rightarrow> fkey option" where
  "first_match line keys = List.find (\<lambda>k. contained k line) keys"

text \<open>
  The index range \<open>[start, end)\<close> of each chunk: the slice \<open>lines[i:i + step]\<close> of \<open>n\<close> lines
  holds the lines from \<open>i\<close> up to, and without, \<open>min(i + step, n)\<close>.
\<close>

definition bounds :: "nat \<Rightarrow> nat \<Rightarrow> (nat \<times> nat) list" where
  "bounds n step = map (\<lambda>i. (i, min (i + step) n)) (py_range 0 n step)"

text \<open>
  Ranges tile \<open>[a, n)\<close> when the first starts at \<open>a\<close>, each is non-empty and starts where
  the one before ends, and the last ends at \<open>n\<close>.
\<close>

fun tiles :: "nat \<Rightarrow> (nat \<times> nat) list \<Rightarrow> nat \<Rightarrow> bool" where
  "tiles a [] n = (a = n)"
| "tiles a ((s, e) # ps) n = (s = a \<and> s < e \<and> tiles e ps n)"

text \<open>
  A result has failed when its second component is a message; the sum of the counts of a
  dictionary; a result is balanced when it counts as many lines as it lists, or lists
  none and carries a message; merging one result into the aggregate counts.
\<close>

definition failed :: "string list \<times> worker_counts \<Rightarrow> bool" where
  "failed r = (case snd r of Msg m \<Rightarrow> True | Counts c \<Rightarrow> False)"

definition total_count :: "counts \<Rightarrow> nat" where
  "total_count d = sum_list (map snd d)"

definition balanced :: "string list \<times> worker_counts \<Rightarrow> bool" where
  "balanced r =
     (case snd r of Counts c \<Rightarrow> total_count c = length (fst r) | Msg m \<Rightarrow> fst r = [])"

definition merge_result :: "counts \<Rightarrow> string list \<times> worker_counts \<Rightarrow> counts" where
  "merge_result fc r = (case snd r of Counts d \<Rightarrow> merge_counts d fc | Msg m \<Rightarrow> fc)"

text \<open>What a caller observes of an outcome and of the file system.\<close>

fun payload_of :: "outcome \<Rightarrow> payload option" where
  "payload_of (Payload p) = Some p"
| "payload_of out = None"

definition hits_of :: "outcome \<Rightarrow> counts option" where
  "hits_of out = map_option hits (payload_of out)"

definition text_of :: "fs \<Rightarrow> string \<Rightarrow> string option" where
  "text_of files path = (case files path of Some (File t) \<Rightarrow> Some t | _ \<Rightarrow> None)"

section \<open>A concrete environment\<close>

text \<open>
  A machine with two processors whose workers iterate over the filter set in the order
  given, a log \<open>app.log\<close> and a filter file \<open>f.json\<close>. \<open>spec_text\<close> writes a JSON object
  with the given keys, each with the value \<open>1\<close>. \<open>demo_json_load\<close> gives what
  \<open>json.load\<close> gives on the filter files used here, which it lists one by one; its last
  line, right for an empty file, stands for all other texts, none of which is used.
\<close>

definition dq :: string where
  "dq = [CHR 0x22]"

fun spec_entries :: "string list \<Rightarrow> string" where
  "spec_entries [] = []"
| "spec_entries [k] = dq @ k @ dq @ '': 1''"
| "spec_entries (k # ks) = dq @ k @ dq @ '': 1, '' @ spec_entries ks"

definition spec_text :: "string list \<Rightarrow> string" where
  "spec_text ks = ''{'' @ spec_entries ks @ ''}''"

text \<open>
  A JSON object with the one key \<open>cafe\<close>, its last letter with an acute accent, saved
  in Latin-1: the byte \<open>0xE9\<close> of the accented letter, followed by a quotation mark, is
  not UTF-8.
\<close>

definition latin1_spec :: string where
  "latin1_spec = ''{'' @ dq @ ''caf'' @ [CHR 0xE9] @ dq @ '': 1}''"

definition latin1_message :: string where
  "latin1_message = apostrophe @ ''utf-8'' @ apostrophe @ '' codec can'' @ apostrophe @
     ''t decode byte 0xe9 in position 5: invalid continuation byte''"

definition demo_json_load :: "string \<Rightarrow> load_result" where
  "demo_json_load t =
     (if t = ''{}'' then Loaded (JObject [])
      else if t = ''[1]'' then Loaded (JArray [JInt 1])
      else if t = ''[1, 2]'' then Loaded (JArray [JInt 1, JInt 2])
      else if t = spec_text [''ERROR''] then Loaded (JObject [(''ERROR'', JInt 1)])
      else if t = spec_text [''ERROR'', ''WARN''] then
        Loaded (JObject [(''ERROR'', JInt 1), (''WARN'', JInt 1)])
      else if t = spec_text [''ERROR'', ''total''] then
        Loaded (JObject [(''ERROR'', JInt 1), (''total'', JInt 1)])
      else if t = spec_text [''WARN'', ''total''] then
        Loaded (JObject [(''WARN'', JInt 1), (''total'', JInt 1)])
      else if t = spec_text [''ERR'', ''ERROR''] then
        Loaded (JObject [(''ERR'', JInt 1), (''ERROR'', JInt 1)])
      else if t = ''{oops'' then
        JSONDecodeError
          ''Expecting property name enclosed in double quotes: line 1 column 2 (char 1)''
      else if t = latin1_spec then LoadRaised (UnicodeDecodeError latin1_message)
      else JSONDecodeError ''Expecting value: line 1 column 1 (char 0)'')"

text \<open>
  What the UTF-8 codec gives on the logs used here: they are ASCII texts, which decode,
  but for one log line holding the byte \<open>0xFF\<close>, listed first. The last line, right for
  ASCII texts, stands for all other contents, none of which is used.
\<close>

definition demo_utf8_error :: "string \<Rightarrow> string option" where
  "demo_utf8_error c =
     (if c = ''ERROR '' @ [CHR 0xFF] @ newline then
        Some (apostrophe @ ''utf-8'' @ apostrophe @ '' codec can'' @ apostrophe @
              ''t decode byte 0xff in position 6: invalid start byte'')
      else None)"

definition demo_env :: env where
  "demo_env =
     \<lparr>cpu_count = 2, iter_order = (\<lambda>j ks. ks),
      json_load = demo_json_load, utf8_error = demo_utf8_error,
      json_dump = (\<lambda>p. ''{}''),
      directory = ''/app/src/log'',
      path_stem = takeWhile (\<lambda>c. c \<noteq> CHR ''.''), path_name = (\<lambda>p. p),
      now_stamp = ''20250101_120000'', now_text = ''01-01-2025 12:00:00'',
      ctime_text = (\<lambda>p. ''31-12-2024 08:00:00''),
      mtime_text = (\<lambda>p. ''31-12-2024 09:00:00''),
      dir_size = (\<lambda>p. 4096),
      xxh3_128 = (\<lambda>c. ''00'')\<rparr>"

definition demo_files :: "string \<Rightarrow> string \<Rightarrow> fs" where
  "demo_files log_text filter_spec =
     [''app.log'' \<mapsto> File log_text, ''f.json'' \<mapsto> File filter_spec]"

text \<open>A text file with the given lines, each ended by a newline character.\<close>

definition text_lines :: "string list \<Rightarrow> string" where
  "text_lines ls = concat (map (\<lambda>l. l @ newline) ls)"

section \<open>The worker\<close>

lemma str_in_sublist: "str_in k l \<longleftrightarrow> sublist k l"
  by (induction l) (auto simp: sublist_Cons_right)

lemma scan_keys_str:
  "\<forall>k\<in>set keys. is_str k \<Longrightarrow> scan_keys line keys = Inr (first_match line keys)"
  unfolding first_match_def
proof (induction keys)
  case Nil
  then show ?case by simp
next
  case (Cons k ks)
  then show ?case by (cases k) auto
qed

lemma first_match_in_set: "first_match line keys = Some k \<Longrightarrow> k \<in> set keys"
  unfolding first_match_def by (auto simp: find_Some_iff)

lemma update_append_new: "k \<notin> fst ` set d \<Longrightarrow> AList.update k v d = d @ [(k, v)]"
  by (induction d) auto

lemma fold_update_fresh:
  "distinct keys \<Longrightarrow> set keys \<inter> fst ` set d0 = {} \<Longrightarrow>
   fold (\<lambda>k d. AList.update k (0::nat) d) keys d0 = d0 @ map (\<lambda>k. (k, 0)) keys"
proof (induction keys arbitrary: d0)
  case Nil
  then show ?case by simp
next
  case (Cons k ks)
  have "AList.update k 0 d0 = d0 @ [(k, 0)]"
    using Cons.prems by (intro update_append_new) auto
  moreover have "set ks \<inter> fst ` set (d0 @ [(k, 0::nat)]) = {}"
    using Cons.prems by auto
  ultimately show ?case using Cons.IH[of "d0 @ [(k, 0)]"] Cons.prems by simp
qed

lemma init_counts_distinct: "distinct keys \<Longrightarrow> init_counts keys = map (\<lambda>k. (k, 0)) keys"
  unfolding init_counts_def using fold_update_fresh[of keys "[]"] by simp

lemma map_of_tabulate: "k \<in> set keys \<Longrightarrow> map_of (map (\<lambda>k. (k, g k)) keys) k = Some (g k)"
  by (induction keys) auto

lemma update_tabulate:
  "distinct keys \<Longrightarrow> k \<in> set keys \<Longrightarrow>
   AList.update k v (map (\<lambda>k. (k, g k)) keys) = map (\<lambda>k'. (k', (g(k := v)) k')) keys"
  by (induction keys) auto

lemma incr_tabulate:
  "distinct keys \<Longrightarrow> k \<in> set keys \<Longrightarrow>
   incr k (map (\<lambda>k. (k, g k)) keys) = Inr (map (\<lambda>k'. (k', (g(k := g k + 1)) k')) keys)"
  unfolding incr_def by (simp add: map_of_tabulate update_tabulate)

text \<open>
  With string keys the two loops never raise: every line with a first match is appended
  once, followed by a newline character, and credited to that key alone.
\<close>

lemma scan_lines_str:
  assumes "\<forall>k\<in>set keys. is_str k" "distinct keys"
  shows "scan_lines lines keys (f, map (\<lambda>k. (k, g k)) keys) =
     Inr (f @ map (\<lambda>l. l @ newline) [l \<leftarrow> lines. first_match l keys \<noteq> None],
          map (\<lambda>k. (k, g k + length [l \<leftarrow> lines. first_match l keys = Some k])) keys)"
proof (induction lines arbitrary: f g)
  case Nil
  then show ?case by simp
next
  case (Cons line rest)
  show ?case
  proof (cases "first_match line keys")
    case None
    then show ?thesis using Cons.IH[of f g] assms by (simp add: scan_keys_str)
  next
    case (Some k)
    then have k: "k \<in> set keys" by (rule first_match_in_set)
    have "map (\<lambda>k'. (k', (g(k := g k + 1)) k' + length [l \<leftarrow> rest. first_match l keys = Some k'])) keys
        = map (\<lambda>k'. (k', g k' + length [l \<leftarrow> line # rest. first_match l keys = Some k'])) keys"
      using Some by auto
    then show ?thesis
      using Cons.IH[of "f @ [line @ newline]" "g(k := g k + 1)"] assms Some k
      by (simp add: scan_keys_str incr_tabulate)
  qed
qed

lemma worker_str:
  assumes "\<forall>k\<in>set keys. is_str k" and "distinct keys"
  shows "worker_function (lines, keys) =
     (map (\<lambda>l. l @ newline) [l \<leftarrow> lines. first_match l keys \<noteq> None],
      Counts (map (\<lambda>k. (k, length [l \<leftarrow> lines. first_match l keys = Some k])) keys))"
  using scan_lines_str[OF assms, of lines "[]" "\<lambda>k. 0"] assms(2)
  by (simp add: worker_function_def init_counts_distinct)



text \<open>
  Claim C10. The worker returns a pair on every input. When its body raises an exception
  \<open>e\<close>, the pair is the empty list of matched lines and the string \<open>"Error: " + str(e)\<close>
  in place of the counts; otherwise it is the matched lines and the counts. Collecting a
  result whose second component is a string leaves the output written so far, the number
  of matched lines and the per-key counts as they were; only a message is written to
  \<open>sys.stderr\<close>.
\<close>

theorem worker_never_raises:
  "(\<forall>e. scan_lines lines keys ([], init_counts keys) = Inl e \<longrightarrow>
        worker_function (lines, keys) = ([], Msg (''Error: '' @ exn_str e)))
   \<and> (\<forall>f c. scan_lines lines keys ([], init_counts keys) = Inr (f, c) \<longrightarrow>
        worker_function (lines, keys) = (f, Counts c))
   \<and> (\<forall>m. collect st ([], Msg m) = st\<lparr>stderr_log := stderr_log st @ [worker_error]\<rparr>)"
  by (simp add: worker_function_def collect_def)

theorem worker_never_raises_witness:
  "worker_function ([''ERROR a'', ''INFO b''], [KStr ''ERROR'', KInt 7]) =
     ([], Msg (''Error: '' @ apostrophe @ ''in <string>'' @ apostrophe @
               '' requires string as left operand, not int''))
   \<and> matched_lines (collect \<lparr>outfile = ''x'', matched_lines = 4,
                         filter_counts = [(KStr ''ERROR'', 4)], stderr_log = []\<rparr>
        (worker_function ([''ERROR a'', ''INFO b''], [KStr ''ERROR'', KInt 7]))) = 4"
  using worker_never_raises[of "[''ERROR a'', ''INFO b'']" "[KStr ''ERROR'', KInt 7]"
      "\<lparr>outfile = ''x'', matched_lines = 4, filter_counts = [(KStr ''ERROR'', 4)],
        stderr_log = []\<rparr>"]
  by (simp add: init_counts_def incr_def)

section \<open>The partition plan\<close>

declare py_range.simps [simp del]

lemma py_range_stop: "stop \<le> i \<Longrightarrow> py_range i stop step = []"
  by (simp add: py_range.simps)

lemma py_range_step: "0 < step \<Longrightarrow> i < stop \<Longrightarrow> py_range i stop step = i # py_range (i + step) stop step"
  by (subst py_range.simps) simp

lemma tiles_py_range:
  "0 < step \<Longrightarrow> i < n \<Longrightarrow> tiles i (map (\<lambda>i. (i, min (i + step) n)) (py_range i n step)) n"
proof (induction i n step rule: py_range.induct)
  case (1 i stop step)
  have unfold: "py_range i stop step = i # py_range (i + step) stop step"
    using "1.prems" by (rule py_range_step)
  show ?case
  proof (cases "i + step < stop")
    case True
    have "tiles (i + step) (map (\<lambda>i. (i, min (i + step) stop)) (py_range (i + step) stop step)) stop"
      using "1.IH" "1.prems" True by simp
    then show ?thesis using True "1.prems" unfolding unfold by (simp add: min_def)
  next
    case False
    then have "py_range (i + step) stop step = []" by (simp add: py_range_stop)
    then show ?thesis using False "1.prems" unfolding unfold by (simp add: min_def)
  qed
qed

lemma tiles_bounds: "0 < step \<Longrightarrow> tiles 0 (bounds n step) n"
  unfolding bounds_def
  by (cases "n = 0") (simp_all add: py_range_stop tiles_py_range)

lemma concat_py_range:
  "0 < step \<Longrightarrow> concat (map (\<lambda>i. slice xs i (i + step)) (py_range i (length xs) step)) = drop i xs"
proof (induction i "length xs" step rule: py_range.induct)
  case (1 i step)
  show ?case
  proof (cases "i < length xs")
    case True
    have unfold: "py_range i (length xs) step = i # py_range (i + step) (length xs) step"
      using "1.prems" True by (rule py_range_step)
    have ih: "concat (map (\<lambda>i. slice xs i (i + step)) (py_range (i + step) (length xs) step))
              = drop (i + step) xs"
      using "1.hyps" "1.prems" True by simp
    have "take step (drop i xs) @ drop (i + step) xs = drop i xs"
      by (metis add.commute append_take_drop_id drop_drop)
    then show ?thesis unfolding unfold using ih by (simp add: slice_def)
  next
    case False
    then show ?thesis by (simp add: py_range_stop)
  qed
qed

lemma concat_chunks: "0 < step \<Longrightarrow> concat (chunks xs step) = xs"
  unfolding chunks_def using concat_py_range[of step xs 0] by simp

lemma slice_min: "slice xs i (min (i + step) (length xs)) = slice xs i (i + step)"
  unfolding slice_def by (cases "i + step \<le> length xs") (simp_all add: min_def)

lemma chunks_bounds:
  "chunks xs step = map (\<lambda>(s, e). slice xs s e) (bounds (length xs) step)"
  unfolding chunks_def bounds_def by (simp add: slice_min comp_def)

lemma py_range_sizes:
  "0 < step \<Longrightarrow>
   (\<forall>(s, e) \<in> set (map (\<lambda>i. (i, min (i + step) n)) (py_range i n step)). e - s \<le> step) \<and>
   (\<forall>(s, e) \<in> set (butlast (map (\<lambda>i. (i, min (i + step) n)) (py_range i n step))). e - s = step)"
proof (induction i n step rule: py_range.induct)
  case (1 i stop step)
  show ?case
  proof (cases "i < stop")
    case False
    then show ?thesis by (simp add: py_range_stop)
  next
    case True
    have unfold: "py_range i stop step = i # py_range (i + step) stop step"
      using "1.prems" True by (rule py_range_step)
    have ih: "(\<forall>(s, e) \<in> set (map (\<lambda>i. (i, min (i + step) stop)) (py_range (i + step) stop step)). e - s \<le> step) \<and>
      (\<forall>(s, e) \<in> set (butlast (map (\<lambda>i. (i, min (i + step) stop)) (py_range (i + step) stop step))). e - s = step)"
      using "1.IH" "1.prems" True by simp
    show ?thesis
    proof (cases "i + step < stop")
      case True
      then have "py_range (i + step) stop step \<noteq> []"
        using "1.prems" by (simp add: py_range_step[of step "i + step"])
      then show ?thesis using ih True unfolding unfold by (simp add: min_def)
    next
      case False
      then have "py_range (i + step) stop step = []" by (simp add: py_range_stop)
      then show ?thesis using False unfolding unfold by (auto simp: min_def)
    qed
  qed
qed

lemma slice_nth: "e \<le> length xs \<Longrightarrow> slice xs s e = map (nth xs) [s..<e]"
proof (rule nth_equalityI)
  assume e: "e \<le> length xs"
  show len: "length (slice xs s e) = length (map (nth xs) [s..<e])"
    using e by (simp add: slice_def)
  fix i assume "i < length (slice xs s e)"
  then have i: "i < e - s" using e by (simp add: slice_def)
  then show "slice xs s e ! i = map (nth xs) [s..<e] ! i"
    using e by (simp add: slice_def)
qed

lemma chunks_nth:
  "chunks xs step = map (\<lambda>(s, e). map (nth xs) [s..<e]) (bounds (length xs) step)"
proof -
  have "slice xs i (i + step) = map (nth xs) [i..<min (i + step) (length xs)]" for i
    using slice_nth[of "min (i + step) (length xs)" xs i] slice_min[of xs i step]
    by simp
  then show ?thesis
    unfolding chunks_def bounds_def by (simp add: comp_def)
qed

text \<open>
  Claim C4. For \<open>n\<close> lines and \<open>w \<ge> 1\<close> workers the chunk size is \<open>max(1, n // w)\<close>. The
  partitions start at \<open>0\<close>, each one starts where the one before ends, none is empty and
  the last one ends at \<open>n\<close>: they are contiguous, do not overlap and cover \<open>[0, n)\<close> with
  no gap. Every partition but the last holds exactly one chunk size of lines and the last
  holds what remains, at most one chunk size. The chunk handed to a worker is the lines
  of its partition, and the chunks put end to end are the line sequence.
\<close>

theorem partition_plan:
  assumes "1 \<le> w"
  shows "chunk_size n w = max 1 (n div w)
       \<and> tiles 0 (bounds n (chunk_size n w)) n
       \<and> (\<forall>(s, e) \<in> set (bounds n (chunk_size n w)). e - s \<le> chunk_size n w)
       \<and> (\<forall>(s, e) \<in> set (butlast (bounds n (chunk_size n w))). e - s = chunk_size n w)
       \<and> (length xs = n \<longrightarrow>
            chunks xs (chunk_size n w) =
              map (\<lambda>(s, e). map (nth xs) [s..<e]) (bounds n (chunk_size n w))
          \<and> concat (chunks xs (chunk_size n w)) = xs)"
proof -
  have pos: "0 < chunk_size n w" by (simp add: chunk_size_def)
  have 1: "chunk_size n w = max 1 (n div w)" by (simp add: chunk_size_def)
  have 2: "tiles 0 (bounds n (chunk_size n w)) n" by (rule tiles_bounds[OF pos])
  have 3: "\<forall>(s, e) \<in> set (bounds n (chunk_size n w)). e - s \<le> chunk_size n w"
    using py_range_sizes[OF pos, of n 0] unfolding bounds_def by blast
  have 4: "\<forall>(s, e) \<in> set (butlast (bounds n (chunk_size n w))). e - s = chunk_size n w"
    using py_range_sizes[OF pos, of n 0] unfolding bounds_def by blast
  have 5: "length xs = n \<longrightarrow>
            chunks xs (chunk_size n w) =
              map (\<lambda>(s, e). map (nth xs) [s..<e]) (bounds n (chunk_size n w))
          \<and> concat (chunks xs (chunk_size n w)) = xs"
    using chunks_nth[of xs "chunk_size n w"] concat_chunks[OF pos, of xs] by blast
  from 1 2 3 4 5 show ?thesis by blast
qed

theorem partition_plan_witness:
  "bounds 10 (chunk_size 10 3) = [(0, 3), (3, 6), (6, 9), (9, 10)]
   \<and> tiles 0 (bounds 10 (chunk_size 10 3)) 10
   \<and> concat (chunks [''a'', ''b'', ''c'', ''d'', ''e'', ''f'', ''g'', ''h'', ''i'', ''j'']
               (chunk_size 10 3)) =
       [''a'', ''b'', ''c'', ''d'', ''e'', ''f'', ''g'', ''h'', ''i'', ''j'']"
proof -
  let ?xs = "[''a'', ''b'', ''c'', ''d'', ''e'', ''f'', ''g'', ''h'', ''i'', ''j'']"
  have b: "bounds 10 (chunk_size 10 3) = [(0, 3), (3, 6), (6, 9), (9, 10)]"
    by (simp add: bounds_def chunk_size_def py_range.simps)
  have w: "(1::nat) \<le> 3" by simp
  have l: "length ?xs = 10" by simp
  note p = partition_plan[OF w, of 10 ?xs]
  from p have t: "tiles 0 (bounds 10 (chunk_size 10 3)) 10"
    by (rule conjunct1[OF conjunct2])
  from p have "length ?xs = 10 \<longrightarrow>
      chunks ?xs (chunk_size 10 3) =
        map (\<lambda>(s, e). map (nth ?xs) [s..<e]) (bounds 10 (chunk_size 10 3))
      \<and> concat (chunks ?xs (chunk_size 10 3)) = ?xs"
    by (rule conjunct2[OF conjunct2[OF conjunct2[OF conjunct2]]])
  with l have c: "concat (chunks ?xs (chunk_size 10 3)) = ?xs"
    by (rule conjunct2[OF mp, rotated])
  from b t c show ?thesis by (intro conjI)
qed

section \<open>The aggregator\<close>

lemma total_count_simps [simp]:
  "total_count [] = 0" "total_count (p # ps) = snd p + total_count ps"
  by (simp_all add: total_count_def)

lemma total_update_add:
  "total_count (AList.update k (dict_get d k + c) d) = total_count d + c"
  by (induction d) (auto simp: dict_get_def)

lemma total_merge_counts:
  "total_count (merge_counts wc fc) = total_count fc + total_count wc"
  unfolding merge_counts_def
  by (induction wc arbitrary: fc) (auto simp: total_update_add)

lemma total_incr: "incr k d = Inr d' \<Longrightarrow> total_count d' = total_count d + 1"
proof -
  assume a: "incr k d = Inr d'"
  then obtain c where c: "map_of d k = Some c" and d': "d' = AList.update k (c + 1) d"
    by (auto simp: incr_def split: option.splits)
  have "dict_get d k = c" using c by (simp add: dict_get_def)
  then show ?thesis using total_update_add[of k d 1] d' by simp
qed

lemma scan_lines_total:
  "scan_lines lines keys (f, c) = Inr (f', c') \<Longrightarrow>
   length f' + total_count c = length f + total_count c'"
proof (induction lines arbitrary: f c)
  case Nil
  then show ?case by simp
next
  case (Cons line rest)
  show ?case
  proof (cases "scan_keys line keys")
    case (Inl e)
    then show ?thesis using Cons.prems by simp
  next
    case (Inr hit)
    show ?thesis
    proof (cases hit)
      case None
      then show ?thesis using Cons Inr by simp
    next
      case (Some k)
      show ?thesis
      proof (cases "incr k c")
        case (Inl e)
        then show ?thesis using Cons.prems Inr Some by simp
      next
        case inc: (Inr c1)
        have "scan_lines rest keys (f @ [line @ newline], c1) = Inr (f', c')"
          using Cons.prems Inr Some inc by simp
        from Cons.IH[OF this] total_incr[OF inc] show ?thesis by simp
      qed
    qed
  qed
qed

lemma total_update_zero:
  "total_count d = 0 \<Longrightarrow> total_count (AList.update k 0 d) = 0"
  by (induction d) auto

lemma total_init_counts: "total_count (init_counts keys) = 0"
proof -
  have "total_count d = 0 \<Longrightarrow> total_count (fold (\<lambda>k d. AList.update k 0 d) keys d) = 0" for d
    by (induction keys arbitrary: d) (auto simp: total_update_zero)
  then show ?thesis unfolding init_counts_def by simp
qed

lemma worker_balanced: "balanced (worker_function (lines, keys))"
proof (cases "scan_lines lines keys ([], init_counts keys)")
  case (Inl e)
  then show ?thesis by (simp add: worker_function_def balanced_def)
next
  case (Inr p)
  obtain f c where p: "p = (f, c)" by (cases p)
  from scan_lines_total[of lines keys "[]" "init_counts keys" f c] Inr p
  show ?thesis by (simp add: worker_function_def balanced_def total_init_counts)
qed

lemma collect_balanced:
  "balanced r \<Longrightarrow> total_count (filter_counts st) = matched_lines st \<Longrightarrow>
   total_count (filter_counts (collect st r)) = matched_lines (collect st r)"
  by (cases r) (auto simp: balanced_def collect_def Let_def total_merge_counts split: worker_counts.splits)

lemma foldl_collect_balanced:
  "\<forall>r\<in>set rs. balanced r \<Longrightarrow> total_count (filter_counts st) = matched_lines st \<Longrightarrow>
   total_count (filter_counts (foldl collect st rs)) = matched_lines (foldl collect st rs)"
  by (induction rs arbitrary: st) (auto simp: collect_balanced)

lemma run_workers_balanced: "\<forall>r\<in>set (run_workers order tasks keys). balanced r"
  by (auto simp: run_workers_def worker_balanced)

lemma filter_lines_total:
  "filter_lines cpu order lines keys = Inr st \<Longrightarrow>
   total_count (filter_counts st) = matched_lines st"
  using foldl_collect_balanced[OF run_workers_balanced, of agg_init]
  by (auto simp: filter_lines_def Let_def agg_init_def split: if_splits)





lemma outfile_foldl_collect:
  "outfile (foldl collect st rs) = outfile st @ concat (map (\<lambda>r. concat (fst r)) rs)"
  by (induction rs arbitrary: st)
     (auto simp: collect_def Let_def split: prod.splits worker_counts.splits)

lemma matched_foldl_collect:
  "matched_lines (foldl collect st rs) = matched_lines st + sum_list (map (\<lambda>r. length (fst r)) rs)"
  by (induction rs arbitrary: st)
     (auto simp: collect_def Let_def split: prod.splits worker_counts.splits)

lemma stderr_foldl_collect:
  "stderr_log (foldl collect st rs) =
   stderr_log st @ replicate (length [r \<leftarrow> rs. failed r]) worker_error"
  by (induction rs arbitrary: st)
     (auto simp: collect_def Let_def failed_def replicate_append_same
           split: prod.splits worker_counts.splits)

lemma counts_foldl_collect:
  "filter_counts (foldl collect st rs) = foldl merge_result (filter_counts st) rs"
  by (induction rs arbitrary: st)
     (auto simp: collect_def Let_def merge_result_def split: prod.splits worker_counts.splits)

lemma foldl_merge_result_ok:
  "foldl merge_result fc [r \<leftarrow> rs. \<not> failed r] = foldl merge_result fc rs"
  by (induction rs arbitrary: fc) (auto simp: merge_result_def failed_def split: worker_counts.splits)

lemma failed_empty: "balanced r \<Longrightarrow> failed r \<Longrightarrow> fst r = []"
  by (auto simp: balanced_def failed_def split: worker_counts.splits)

lemma concat_ok:
  "\<forall>r\<in>set rs. balanced r \<Longrightarrow>
   concat (map (\<lambda>r. concat (fst r)) [r \<leftarrow> rs. \<not> failed r]) = concat (map (\<lambda>r. concat (fst r)) rs)"
  by (induction rs) (auto simp: failed_empty)

lemma length_ok:
  "\<forall>r\<in>set rs. balanced r \<Longrightarrow>
   sum_list (map (\<lambda>r. length (fst r)) [r \<leftarrow> rs. \<not> failed r]) = sum_list (map (\<lambda>r. length (fst r)) rs)"
  by (induction rs) (auto simp: failed_empty)

lemma no_failed_ok: "[r \<leftarrow> [r \<leftarrow> rs. \<not> failed r]. failed r] = []"
  by (induction rs) auto

text \<open>Collecting all results is collecting the results that did not fail, plus the messages.\<close>

lemma foldl_collect_skip_failed:
  assumes "\<forall>r\<in>set rs. balanced r"
  shows "foldl collect st rs =
         (foldl collect st [r \<leftarrow> rs. \<not> failed r])
           \<lparr>stderr_log := stderr_log st @ replicate (length [r \<leftarrow> rs. failed r]) worker_error\<rparr>"
proof -
  let ?ok = "[r \<leftarrow> rs. \<not> failed r]"
  have "outfile (foldl collect st rs) = outfile (foldl collect st ?ok)"
    by (simp add: outfile_foldl_collect concat_ok[OF assms])
  moreover have "matched_lines (foldl collect st rs) = matched_lines (foldl collect st ?ok)"
    by (simp add: matched_foldl_collect length_ok[OF assms])
  moreover have "filter_counts (foldl collect st rs) = filter_counts (foldl collect st ?ok)"
    by (simp add: counts_foldl_collect foldl_merge_result_ok)
  moreover have "stderr_log (foldl collect st rs) =
      stderr_log st @ replicate (length [r \<leftarrow> rs. failed r]) worker_error"
    by (rule stderr_foldl_collect)
  ultimately show ?thesis by simp
qed

lemma scan_lines_subseq:
  "scan_lines lines keys (f, c) = Inr (f', c') \<Longrightarrow>
   \<exists>ys. subseq ys lines \<and> f' = f @ map (\<lambda>l. l @ newline) ys"
proof (induction lines arbitrary: f c)
  case Nil
  then show ?case by simp
next
  case (Cons line rest)
  show ?case
  proof (cases "scan_keys line keys")
    case (Inl e)
    then show ?thesis using Cons.prems by simp
  next
    case (Inr hit)
    show ?thesis
    proof (cases hit)
      case None
      then have "scan_lines rest keys (f, c) = Inr (f', c')" using Cons.prems Inr by simp
      from Cons.IH[OF this] obtain ys where "subseq ys rest" "f' = f @ map (\<lambda>l. l @ newline) ys"
        by blast
      then show ?thesis by (intro exI[of _ ys]) auto
    next
      case (Some k)
      show ?thesis
      proof (cases "incr k c")
        case (Inl e)
        then show ?thesis using Cons.prems Inr Some by simp
      next
        case inc: (Inr c1)
        have "scan_lines rest keys (f @ [line @ newline], c1) = Inr (f', c')"
          using Cons.prems Inr Some inc by simp
        from Cons.IH[OF this] obtain ys where
          "subseq ys rest" "f' = (f @ [line @ newline]) @ map (\<lambda>l. l @ newline) ys"
          by blast
        then show ?thesis by (intro exI[of _ "line # ys"]) auto
      qed
    qed
  qed
qed

lemma worker_subseq:
  "\<exists>ys. subseq ys lines \<and> fst (worker_function (lines, keys)) = map (\<lambda>l. l @ newline) ys"
proof (cases "scan_lines lines keys ([], init_counts keys)")
  case (Inl e)
  then show ?thesis by (intro exI[of _ "[]"]) (simp add: worker_function_def)
next
  case (Inr p)
  obtain f c where p: "p = (f, c)" by (cases p)
  from scan_lines_subseq[of lines keys "[]" "init_counts keys" f c] Inr p
  show ?thesis by (simp add: worker_function_def)
qed

lemma run_workers_subseq:
  "\<exists>ys. subseq ys (concat tasks) \<and>
        concat (map fst (map (\<lambda>(j, chunk). worker_function (chunk, order j keys))
                             (enumerate n tasks))) = map (\<lambda>l. l @ newline) ys"
proof (induction tasks arbitrary: n)
  case Nil
  then show ?case by simp
next
  case (Cons chunk rest)
  obtain ys where ys: "subseq ys chunk"
      "fst (worker_function (chunk, order n keys)) = map (\<lambda>l. l @ newline) ys"
    using worker_subseq by blast
  obtain zs where zs: "subseq zs (concat rest)"
      "concat (map fst (map (\<lambda>(j, chunk). worker_function (chunk, order j keys))
                           (enumerate (Suc n) rest))) = map (\<lambda>l. l @ newline) zs"
    using Cons.IH by blast
  show ?case
    using ys zs by (intro exI[of _ "ys @ zs"]) (simp add: list_emb_append_mono)
qed

lemma concat_concat_fst: "concat (map (\<lambda>r. concat (fst r)) rs) = concat (concat (map fst rs))"
  by (induction rs) auto

lemma length_concat_fst: "sum_list (map (\<lambda>r. length (fst r)) rs) = length (concat (map fst rs))"
  by (induction rs) auto

lemma first_match_None_iff: "first_match l ks \<noteq> None \<longleftrightarrow> (\<exists>k\<in>set ks. contained k l)"
  by (auto simp: first_match_def find_None_iff)

lemma run_workers_str:
  assumes "\<And>j. (\<forall>k\<in>set (order j keys). is_str k) \<and> distinct (order j keys) \<and>
               set (order j keys) = set keys"
  shows "concat (map fst (map (\<lambda>(j, chunk). worker_function (chunk, order j keys))
                              (enumerate n tasks))) =
         map (\<lambda>l. l @ newline) [l \<leftarrow> concat tasks. \<exists>k\<in>set keys. contained k l]"
proof (induction tasks arbitrary: n)
  case Nil
  then show ?case by simp
next
  case (Cons chunk rest)
  have "fst (worker_function (chunk, order n keys)) =
        map (\<lambda>l. l @ newline) [l \<leftarrow> chunk. \<exists>k\<in>set keys. contained k l]"
  proof -
    have "[l \<leftarrow> chunk. first_match l (order n keys) \<noteq> None] =
          [l \<leftarrow> chunk. \<exists>k\<in>set keys. contained k l]"
      using assms[of n] by (intro filter_cong refl) (simp only: first_match_None_iff)
    then show ?thesis
      using assms[of n] worker_str[of "order n keys" chunk] by simp
  qed
  then show ?case using Cons.IH[of "Suc n"] by simp
qed

text \<open>
  Claim C5. The text written to the filtered log is the matched lines of the partitions
  put end to end in the order of the partitions over the source, whatever the order in
  which the workers finish: the results are collected by going through the list of
  submitted tasks. The lines written are a subsequence of the source lines, each followed
  by a newline character, so they keep the relative order they have in the source; with a
  filter set of strings they are exactly the source lines that contain a key.
\<close>

theorem output_in_source_order:
  assumes "filter_lines cpu order lines keys = Inr st"
  shows "outfile st =
           concat (map (\<lambda>r. concat (fst r))
             (run_workers order (chunks lines (chunk_size (length lines) (num_workers cpu keys)))
                keys))
       \<and> (\<exists>ys. subseq ys lines \<and> outfile st = concat (map (\<lambda>l. l @ newline) ys)
               \<and> matched_lines st = length ys)
       \<and> ((\<forall>j. (\<forall>k\<in>set (order j keys). is_str k) \<and> distinct (order j keys) \<and>
                set (order j keys) = set keys) \<longrightarrow>
            outfile st =
              concat (map (\<lambda>l. l @ newline) [l \<leftarrow> lines. \<exists>k\<in>set keys. contained k l]))"
proof -
  let ?c = "chunk_size (length lines) (num_workers cpu keys)"
  let ?rs = "run_workers order (chunks lines ?c) keys"
  have st: "st = foldl collect agg_init ?rs"
    using assms by (auto simp: filter_lines_def Let_def split: if_splits)
  have pos: "0 < ?c" by (simp add: chunk_size_def)
  have cover: "concat (chunks lines ?c) = lines" by (rule concat_chunks[OF pos])
  have out: "outfile st = concat (concat (map fst ?rs))"
    unfolding st by (simp add: outfile_foldl_collect agg_init_def concat_concat_fst)
  have len: "matched_lines st = length (concat (map fst ?rs))"
    unfolding st by (simp add: matched_foldl_collect agg_init_def length_concat_fst)
  have 1: "outfile st = concat (map (\<lambda>r. concat (fst r)) ?rs)"
    using out by (simp add: concat_concat_fst)
  obtain ys where ys: "subseq ys (concat (chunks lines ?c))"
      "concat (map fst ?rs) = map (\<lambda>l. l @ newline) ys"
    using run_workers_subseq[of "chunks lines ?c" order keys 0]
    unfolding run_workers_def by blast
  have 2: "\<exists>ys. subseq ys lines \<and> outfile st = concat (map (\<lambda>l. l @ newline) ys)
               \<and> matched_lines st = length ys"
    using ys out len cover by (intro exI[of _ ys]) simp
  have 3: "(\<forall>j. (\<forall>k\<in>set (order j keys). is_str k) \<and> distinct (order j keys) \<and>
                set (order j keys) = set keys) \<longrightarrow>
            outfile st =
              concat (map (\<lambda>l. l @ newline) [l \<leftarrow> lines. \<exists>k\<in>set keys. contained k l])"
  proof
    assume a: "\<forall>j. (\<forall>k\<in>set (order j keys). is_str k) \<and> distinct (order j keys) \<and>
                set (order j keys) = set keys"
    have "concat (map fst ?rs) =
          map (\<lambda>l. l @ newline) [l \<leftarrow> concat (chunks lines ?c). \<exists>k\<in>set keys. contained k l]"
      unfolding run_workers_def by (rule run_workers_str) (use a in blast)
    then show "outfile st =
              concat (map (\<lambda>l. l @ newline) [l \<leftarrow> lines. \<exists>k\<in>set keys. contained k l])"
      using out cover by simp
  qed
  from 1 2 3 show ?thesis by blast
qed

theorem output_in_source_order_witness:
  "filter_lines 2 (\<lambda>j ks. ks)
     (readlines (text_lines [''ERROR a'', ''INFO b'', ''ERROR c'', ''WARN d'', ''ERROR e'']))
     [KStr ''ERROR'', KStr ''WARN''] =
   Inr \<lparr>outfile = text_lines [''ERROR a'' @ newline, ''ERROR c'' @ newline,
                               ''WARN d'' @ newline, ''ERROR e'' @ newline],
        matched_lines = 4,
        filter_counts = [(KStr ''ERROR'', 3), (KStr ''WARN'', 1)],
        stderr_log = []\<rparr>
   \<and> text_lines [''ERROR a'' @ newline, ''ERROR c'' @ newline,
                  ''WARN d'' @ newline, ''ERROR e'' @ newline] =
     concat (map (\<lambda>l. l @ newline)
       [l \<leftarrow> readlines (text_lines [''ERROR a'', ''INFO b'', ''ERROR c'', ''WARN d'', ''ERROR e'']).
          \<exists>k\<in>set [KStr ''ERROR'', KStr ''WARN'']. contained k l])"
proof -
  let ?ls = "readlines (text_lines [''ERROR a'', ''INFO b'', ''ERROR c'', ''WARN d'', ''ERROR e''])"
  let ?st = "\<lparr>outfile = text_lines [''ERROR a'' @ newline, ''ERROR c'' @ newline,
                               ''WARN d'' @ newline, ''ERROR e'' @ newline],
        matched_lines = 4,
        filter_counts = [(KStr ''ERROR'', 3), (KStr ''WARN'', 1)],
        stderr_log = []\<rparr>"
  have run: "filter_lines 2 (\<lambda>j ks. ks) ?ls [KStr ''ERROR'', KStr ''WARN''] = Inr ?st"
    by code_simp
  have keys: "\<forall>j::nat. (\<forall>k\<in>set [KStr ''ERROR'', KStr ''WARN'']. is_str k) \<and>
                distinct [KStr ''ERROR'', KStr ''WARN''] \<and>
                set [KStr ''ERROR'', KStr ''WARN''] = set [KStr ''ERROR'', KStr ''WARN'']"
    by simp
  from output_in_source_order[OF run] keys
  have "outfile ?st = concat (map (\<lambda>l. l @ newline)
         [l \<leftarrow> ?ls. \<exists>k\<in>set [KStr ''ERROR'', KStr ''WARN'']. contained k l])"
    by blast
  with run show ?thesis by simp
qed

text \<open>
  Claim C7, as amended. With at least one processor the collection always returns: the
  aggregate is the one obtained from the partitions that did not fail alone, a failed
  partition contributes no matched line, and \<open>sys.stderr\<close> receives one
  \<open>Worker error\<close> message for each failed partition. No number of failed partitions is
  computed or returned.
\<close>

theorem failed_partitions_are_skipped:
  assumes "1 \<le> cpu"
  shows "filter_lines cpu order lines keys =
           Inr ((foldl collect agg_init
                   [r \<leftarrow> run_workers order
                          (chunks lines (chunk_size (length lines) (num_workers cpu keys))) keys.
                      \<not> failed r])
                \<lparr>stderr_log :=
                   replicate
                     (length [r \<leftarrow> run_workers order
                                (chunks lines (chunk_size (length lines) (num_workers cpu keys)))
                                keys. failed r])
                     worker_error\<rparr>)
       \<and> (\<forall>r \<in> set (run_workers order
                        (chunks lines (chunk_size (length lines) (num_workers cpu keys))) keys).
             failed r \<longrightarrow> fst r = [])"
proof -
  let ?rs = "run_workers order (chunks lines (chunk_size (length lines) (num_workers cpu keys))) keys"
  have w: "num_workers cpu keys \<noteq> 0" using assms by (simp add: num_workers_def)
  have "filter_lines cpu order lines keys = Inr (foldl collect agg_init ?rs)"
    using w by (simp add: filter_lines_def Let_def)
  moreover have "foldl collect agg_init ?rs =
      (foldl collect agg_init [r \<leftarrow> ?rs. \<not> failed r])
        \<lparr>stderr_log := stderr_log agg_init @ replicate (length [r \<leftarrow> ?rs. failed r]) worker_error\<rparr>"
    by (rule foldl_collect_skip_failed[OF run_workers_balanced])
  moreover have "\<forall>r \<in> set ?rs. failed r \<longrightarrow> fst r = []"
    using run_workers_balanced failed_empty by blast
  ultimately show ?thesis by (simp add: agg_init_def)
qed

theorem failed_partitions_are_skipped_witness:
  "filter_lines 2 (\<lambda>j ks. ks) [''ERROR a'' @ newline, ''x'' @ newline]
     [KStr ''ERROR'', KInt 1] =
   Inr \<lparr>outfile = ''ERROR a'' @ newline @ newline, matched_lines = 1,
        filter_counts = [(KStr ''ERROR'', 1), (KInt 1, 0)],
        stderr_log = [worker_error]\<rparr>"
proof -
  have c: "(1::nat) \<le> 2" by simp
  have l: "length [''ERROR a'' @ newline, ''x'' @ newline] = 2" by simp
  have rs: "run_workers (\<lambda>j ks. ks)
              (chunks [''ERROR a'' @ newline, ''x'' @ newline]
                 (chunk_size 2 (num_workers 2 [KStr ''ERROR'', KInt 1])))
              [KStr ''ERROR'', KInt 1] =
            [([''ERROR a'' @ newline @ newline], Counts [(KStr ''ERROR'', 1), (KInt 1, 0)]),
             ([], Msg (''Error: '' @ apostrophe @ ''in <string>'' @ apostrophe @
                       '' requires string as left operand, not int''))]"
    by code_simp
  show ?thesis
    using failed_partitions_are_skipped[OF c, of "\<lambda>j ks. ks"
        "[''ERROR a'' @ newline, ''x'' @ newline]" "[KStr ''ERROR'', KInt 1]"]
    unfolding l rs
    by (simp add: failed_def collect_def agg_init_def merge_counts_def dict_get_def)
qed

section \<open>\<open>filter\<close>: validation\<close>

text \<open>
  A missing log file, a missing filter file, a filter file on which \<open>json.load\<close> raises
  \<open>JSONDecodeError\<close>, an empty filter set and an existing output folder without
  \<open>overwrite\<close> are detected in this order, before the output folder is created and before
  any file is opened for writing or any worker is started. Each is returned as a
  dictionary (an error, or a warning for the empty filter set), the file system is left as
  it was and nothing is written to \<open>sys.stderr\<close>. Conversely, whenever \<open>filter\<close> returns an
  error or a warning dictionary the file system is unchanged. When loading the filter file
  raises another exception, that exception leaves \<open>filter\<close>, the file system unchanged.
\<close>

lemma validation_returns:
  "(files log_file = None \<longrightarrow>
      filter_log e files log_file filter_file overwrite =
        (ErrorDict (not_found ''Log'' log_file), files, []))
 \<and> (files log_file \<noteq> None \<and> files filter_file = None \<longrightarrow>
      filter_log e files log_file filter_file overwrite =
        (ErrorDict (not_found ''Filter'' filter_file), files, []))
 \<and> (files log_file \<noteq> None \<and> files filter_file = Some (File text) \<and>
    json_load e text = JSONDecodeError m \<longrightarrow>
      filter_log e files log_file filter_file overwrite =
        (ErrorDict (''Invalid JSON in filter file: '' @ m), files, []))
 \<and> (files log_file \<noteq> None \<and> files filter_file = Some (File text) \<and>
    json_load e text = LoadRaised x \<longrightarrow>
      filter_log e files log_file filter_file overwrite = (Raised x, files, []))
 \<and> (files log_file \<noteq> None \<and> files filter_file = Some (File text) \<and>
    json_load e text = Loaded filters \<and> set_of filters = Inr [] \<longrightarrow>
      filter_log e files log_file filter_file overwrite =
        (WarningDict ''No filter keys found in filter file. Skipping filtering.'', files, []))
 \<and> (files log_file \<noteq> None \<and> files filter_file = Some (File text) \<and>
    json_load e text = Loaded filters \<and> set_of filters = Inr keys \<and> keys \<noteq> [] \<and>
    files (log_folder e log_file) \<noteq> None \<and> \<not> overwrite \<longrightarrow>
      filter_log e files log_file filter_file overwrite =
        (ErrorDict (''Folder '' @ apostrophe @ log_folder e log_file @ apostrophe @
                    '' already exists. Use overwrite=True to proceed.''), files, []))
 \<and> (\<forall>m. fst (filter_log e files log_file filter_file overwrite) = ErrorDict m \<or>
         fst (filter_log e files log_file filter_file overwrite) = WarningDict m \<longrightarrow>
         snd (filter_log e files log_file filter_file overwrite) = (files, []))"
proof (intro conjI)
  show "\<forall>m. fst (filter_log e files log_file filter_file overwrite) = ErrorDict m \<or>
         fst (filter_log e files log_file filter_file overwrite) = WarningDict m \<longrightarrow>
         snd (filter_log e files log_file filter_file overwrite) = (files, [])"
    by (auto simp: filter_log_def Let_def
          split: if_splits option.splits node.splits sum.splits prod.splits load_result.splits)
qed (auto simp: filter_log_def)

text \<open>
  Claim C6. The claim asks that a filter file that is not valid JSON is returned
  immediately as an error value, like the other validation failures. A filter file saved
  in Latin-1 with a key that holds an accented letter is not UTF-8:
  \<open>open(filter_file, 'r', encoding='utf-8')\<close> and \<open>json.load\<close> raise
  \<open>UnicodeDecodeError\<close>, which is not a \<open>JSONDecodeError\<close>, and \<open>filter\<close> raises it instead of
  returning a dictionary. The file system is unchanged and nothing is written to
  \<open>sys.stderr\<close>. The filter file \<open>{oops\<close>, on which \<open>json.load\<close> raises \<open>JSONDecodeError\<close>,
  is returned as an error dictionary.
\<close>

theorem undecodable_filter_file_raises:
  "filter_log demo_env (demo_files (text_lines [''ERROR a'']) latin1_spec)
     ''app.log'' ''f.json'' False =
     (Raised (UnicodeDecodeError latin1_message),
      demo_files (text_lines [''ERROR a'']) latin1_spec, [])
 \<and> filter_log demo_env (demo_files (text_lines [''ERROR a'']) ''{oops'')
     ''app.log'' ''f.json'' False =
     (ErrorDict (''Invalid JSON in filter file: '' @
        ''Expecting property name enclosed in double quotes: line 1 column 2 (char 1)''),
      demo_files (text_lines [''ERROR a'']) ''{oops'', [])"
  by (simp add: filter_log_def demo_files_def demo_env_def demo_json_load_def latin1_spec_def
        spec_text_def dq_def)

section \<open>\<open>filter\<close>: runs on concrete files\<close>

text \<open>
  Claim C1. The claim asks that the per-key counts under \<open>hits\<close> add up to \<open>hits.total\<close>,
  the number of matched lines. With the filter keys \<open>ERROR\<close> and \<open>total\<close> and the log lines
  \<open>ERROR a\<close>, \<open>ERROR b\<close>, \<open>total c\<close>, three lines are matched and written, but the count of
  the filter key \<open>total\<close> is stored over the entry \<open>"total"\<close>: \<open>hits\<close> is
  \<open>{"total": 1, "ERROR": 2}\<close>.
\<close>

theorem total_key_breaks_sum:
  "hits_of (fst (filter_log demo_env
       (demo_files (text_lines [''ERROR a'', ''ERROR b'', ''total c''])
                   (spec_text [''ERROR'', ''total'']))
       ''app.log'' ''f.json'' False)) =
     Some [(KStr ''total'', 1), (KStr ''ERROR'', 2)]
   \<and> text_of (fst (snd (filter_log demo_env
       (demo_files (text_lines [''ERROR a'', ''ERROR b'', ''total c''])
                   (spec_text [''ERROR'', ''total'']))
       ''app.log'' ''f.json'' False))) (output_file demo_env ''app.log'') =
     Some (text_lines [''ERROR a'' @ newline, ''ERROR b'' @ newline, ''total c'' @ newline])"
  by code_simp

text \<open>
  Claim C2. The claim asks that a matched line is written with its terminator once, so
  that the filtered log has \<open>hits.total\<close> lines. \<open>readlines\<close> keeps the terminator and the
  worker appends another one: for the log lines \<open>ERROR a\<close>, \<open>INFO b\<close> and the key \<open>ERROR\<close>
  the filtered log is \<open>ERROR a\<close> followed by two newline characters, which is two lines,
  while \<open>hits.total\<close> is \<open>1\<close>.
\<close>

theorem newline_is_doubled:
  "text_of (fst (snd (filter_log demo_env
       (demo_files (text_lines [''ERROR a'', ''INFO b'']) (spec_text [''ERROR'']))
       ''app.log'' ''f.json'' False))) (output_file demo_env ''app.log'') =
     Some (''ERROR a'' @ newline @ newline)
   \<and> readlines (''ERROR a'' @ newline @ newline) = [''ERROR a'' @ newline, newline]
   \<and> hits_of (fst (filter_log demo_env
       (demo_files (text_lines [''ERROR a'', ''INFO b'']) (spec_text [''ERROR'']))
       ''app.log'' ''f.json'' False)) =
     Some [(KStr ''total'', 1), (KStr ''ERROR'', 1)]"
  by code_simp

text \<open>
  Claim C9. The claim asks that \<open>hits\<close> lists \<open>"total"\<close> and then the filter keys with a
  positive count in descending order of count. With the filter keys \<open>WARN\<close> and \<open>total\<close> and
  the log lines \<open>total x\<close>, \<open>WARN y\<close>, \<open>WARN z\<close> the aggregate counts are \<open>WARN: 2\<close> and
  \<open>total: 1\<close>; in \<open>hits\<close> the filter key \<open>total\<close> with count \<open>1\<close> comes before \<open>WARN\<close> with
  count \<open>2\<close>, and no entry holds the number of matched lines, \<open>3\<close>.
\<close>

theorem total_key_breaks_order:
  "filter_lines 2 (\<lambda>j ks. ks) (readlines (text_lines [''total x'', ''WARN y'', ''WARN z'']))
     [KStr ''WARN'', KStr ''total''] =
     Inr \<lparr>outfile = text_lines [''total x'' @ newline, ''WARN y'' @ newline, ''WARN z'' @ newline],
          matched_lines = 3,
          filter_counts = [(KStr ''WARN'', 2), (KStr ''total'', 1)],
          stderr_log = []\<rparr>
   \<and> hits_of (fst (filter_log demo_env
       (demo_files (text_lines [''total x'', ''WARN y'', ''WARN z''])
                   (spec_text [''WARN'', ''total'']))
       ''app.log'' ''f.json'' False)) =
     Some [(KStr ''total'', 1), (KStr ''WARN'', 2)]"
  by code_simp

text \<open>
  Claim C7, as stated. The claim has the failure surface as a count of failed partitions
  reported with the outcome. For the log lines \<open>x\<close>, \<open>y\<close> the filter file \<open>[1, 2]\<close> makes
  two partitions fail and the filter file \<open>[1]\<close> makes one partition fail; both runs
  return the same payload, \<open>hits\<close> being \<open>{"total": 0}\<close>, and differ only in what is written
  to \<open>sys.stderr\<close>.
\<close>

theorem failed_partitions_not_counted:
  "payload_of (fst (filter_log demo_env (demo_files (text_lines [''x'', ''y'']) ''[1, 2]'')
                      ''app.log'' ''f.json'' False)) =
   payload_of (fst (filter_log demo_env (demo_files (text_lines [''x'', ''y'']) ''[1]'')
                      ''app.log'' ''f.json'' False))
 \<and> hits_of (fst (filter_log demo_env (demo_files (text_lines [''x'', ''y'']) ''[1, 2]'')
                      ''app.log'' ''f.json'' False)) = Some [(KStr ''total'', 0)]
 \<and> snd (snd (filter_log demo_env (demo_files (text_lines [''x'', ''y'']) ''[1, 2]'')
                      ''app.log'' ''f.json'' False)) = [worker_error, worker_error]
 \<and> snd (snd (filter_log demo_env (demo_files (text_lines [''x'', ''y'']) ''[1]'')
                      ''app.log'' ''f.json'' False)) = [worker_error]"
  by code_simp

text \<open>
  Claim C8, as stated. The claim has two runs on the same files return the same \<open>hits\<close>.
  The filter keys \<open>ERR\<close> and \<open>ERROR\<close> are both contained in the log line \<open>ERROR x\<close>. A run
  whose worker iterates over the set in the order \<open>ERR\<close>, \<open>ERROR\<close> credits \<open>ERR\<close>; a second
  run on the files left by the first, whose worker iterates in the other order, credits
  \<open>ERROR\<close>.
\<close>

theorem set_order_changes_hits:
  "hits_of (fst (filter_log demo_env
       (demo_files (text_lines [''ERROR x'']) (spec_text [''ERR'', ''ERROR'']))
       ''app.log'' ''f.json'' True)) =
     Some [(KStr ''total'', 1), (KStr ''ERR'', 1)]
 \<and> hits_of (fst (filter_log
       (demo_env\<lparr>iter_order := (\<lambda>j ks. rev ks), now_stamp := ''20250101_120500'',
                  now_text := ''01-01-2025 12:05:00''\<rparr>)
       (fst (snd (filter_log demo_env
          (demo_files (text_lines [''ERROR x'']) (spec_text [''ERR'', ''ERROR'']))
          ''app.log'' ''f.json'' True)))
       ''app.log'' ''f.json'' True)) =
     Some [(KStr ''total'', 1), (KStr ''ERROR'', 1)]"
  by code_simp

text \<open>
  Reading in text mode: \<open>a\r\nb\rc\n\<close> is read as the three lines \<open>a\<close>, \<open>b\<close>, \<open>c\<close>, each
  ended by a line feed, while \<open>_count_lines\<close> counts two lines in it.
\<close>

lemma readlines_universal:
  "readlines (''a'' @ [CHR 0x0D, CHR 0x0A] @ ''b'' @ [CHR 0x0D] @ ''c'' @ [CHR 0x0A]) =
     [''a'' @ newline, ''b'' @ newline, ''c'' @ newline]
 \<and> length (binary_lines (''a'' @ [CHR 0x0D, CHR 0x0A] @ ''b'' @ [CHR 0x0D] @ ''c'' @ [CHR 0x0A])) = 2"
  by (simp add: readlines_def binary_lines_def newline_def)

text \<open>
  A log that is not UTF-8 makes \<open>filter\<close> raise \<open>UnicodeDecodeError\<close> from
  \<open>infile.readlines()\<close>, after the output folder and an empty output file were created.
\<close>

lemma undecodable_log_raises:
  "fst (filter_log demo_env (demo_files (''ERROR '' @ [CHR 0xFF] @ newline) (spec_text [''ERROR'']))
          ''app.log'' ''f.json'' False) =
     Raised (UnicodeDecodeError (apostrophe @ ''utf-8'' @ apostrophe @ '' codec can'' @
               apostrophe @ ''t decode byte 0xff in position 6: invalid start byte''))
 \<and> fst (snd (filter_log demo_env
          (demo_files (''ERROR '' @ [CHR 0xFF] @ newline) (spec_text [''ERROR'']))
          ''app.log'' ''f.json'' False)) (log_folder demo_env ''app.log'') = Some Dir
 \<and> text_of (fst (snd (filter_log demo_env
          (demo_files (''ERROR '' @ [CHR 0xFF] @ newline) (spec_text [''ERROR'']))
          ''app.log'' ''f.json'' False))) (output_file demo_env ''app.log'') = Some []"
  by code_simp

section \<open>\<open>filter\<close>: a run that returns a payload\<close>

lemma output_not_folder: "output_file e l \<noteq> log_folder e l"
  by (simp add: output_file_def)

lemma metadata_not_folder: "metadata_file e l \<noteq> log_folder e l"
  by (simp add: metadata_file_def)

lemma last_output: "last (output_file e l) = CHR ''g''"
  by (simp add: output_file_def)

lemma last_metadata: "last (metadata_file e l) = CHR ''n''"
  by (simp add: metadata_file_def)

lemma metadata_not_output: "metadata_file e l \<noteq> output_file e' l'"
proof
  assume "metadata_file e l = output_file e' l'"
  then have "last (metadata_file e l) = last (output_file e' l')" by simp
  then show False by (simp add: last_output last_metadata)
qed

lemma get_info_cong: "files path = files' path \<Longrightarrow> get_info e files path = get_info e files' path"
  by (simp add: get_info_def)

lemma case_not_file:
  "\<forall>c. v \<noteq> Some (File c) \<Longrightarrow> (case v of None \<Rightarrow> b | Some (File c) \<Rightarrow> a c | Some Dir \<Rightarrow> b) = b"
  by (auto split: option.splits node.splits)

lemma case_not_dir:
  "v \<noteq> Some Dir \<Longrightarrow> (case v of None \<Rightarrow> b | Some (File c) \<Rightarrow> b | Some Dir \<Rightarrow> d) = b"
  by (auto split: option.splits node.splits)

lemma parallel_filter_run:
  assumes "files log_file = Some (File content)"
    and "files out \<noteq> Some Dir" and "log_file \<noteq> out"
    and "utf8_error e content = None"
    and "filter_lines (cpu_count e) (iter_order e) (readlines content) keys = Inr st"
  shows "parallel_filter e files log_file out keys =
           (Inr (matched_lines st, filter_counts st), files(out \<mapsto> File (outfile st)),
            stderr_log st)"
  using assms by (simp add: parallel_filter_def Let_def case_not_dir)

lemma filter_log_payload:
  assumes lf: "files log_file = Some (File content)"
    and ff: "files filter_file = Some (File text)"
    and js: "json_load e text = Loaded j" and ks: "set_of j = Inr keys" and ne: "keys \<noteq> []"
    and dec: "utf8_error e content = None"
    and ow: "overwrite \<or> files (log_folder e log_file) = None"
    and fo: "\<forall>c. files (log_folder e log_file) \<noteq> Some (File c)"
    and od: "files (output_file e log_file) \<noteq> Some Dir"
    and md: "files (metadata_file e log_file) \<noteq> Some Dir"
    and lo: "log_file \<noteq> output_file e log_file"
    and run: "filter_lines (cpu_count e) (iter_order e) (readlines content) keys = Inr st"
  shows "filter_log e files log_file filter_file overwrite =
     (Payload \<lparr>hits = make_hits (matched_lines st) (filter_counts st),
               meta = \<lparr>meta_filter = path_name e filter_file, meta_filtered_at = now_text e,
                       meta_file = get_info e files log_file\<rparr>\<rparr>,
      files(log_folder e log_file \<mapsto> Dir,
            output_file e log_file \<mapsto> File (outfile st),
            metadata_file e log_file \<mapsto>
              File (json_dump e
                \<lparr>hits = make_hits (matched_lines st) (filter_counts st),
                 meta = \<lparr>meta_filter = path_name e filter_file, meta_filtered_at = now_text e,
                         meta_file = get_info e files log_file\<rparr>\<rparr>)),
      stderr_log st)"
proof -
  let ?files1 = "files(log_folder e log_file \<mapsto> Dir)"
  have lfo: "log_file \<noteq> log_folder e log_file" using lf fo by auto
  have 1: "?files1 log_file = Some (File content)" using lf lfo by simp
  have 2: "?files1 (output_file e log_file) \<noteq> Some Dir"
    using od output_not_folder[of e log_file] by simp
  have pf: "parallel_filter e ?files1 log_file (output_file e log_file) keys =
           (Inr (matched_lines st, filter_counts st),
            ?files1(output_file e log_file \<mapsto> File (outfile st)), stderr_log st)"
    by (rule parallel_filter_run[OF 1 2 lo dec run])
  let ?files2 = "?files1(output_file e log_file \<mapsto> File (outfile st))"
  have 3: "?files2 (metadata_file e log_file) \<noteq> Some Dir"
    using md metadata_not_folder[of e log_file] metadata_not_output[of e log_file e log_file]
    by simp
  have gi: "get_info e ?files2 log_file = get_info e files log_file"
    by (rule get_info_cong) (use lfo lo in simp)
  have gate: "\<not> (files (log_folder e log_file) \<noteq> None \<and> \<not> overwrite)" using ow by auto
  have "filter_log e files log_file filter_file overwrite =
     (case parallel_filter e ?files1 log_file (output_file e log_file) keys of
        (Inl x, files2, err) \<Rightarrow> (Raised x, files2, err)
      | (Inr (matched, fc), files2, err) \<Rightarrow>
         (let result_payload =
                \<lparr>hits = make_hits matched fc,
                 meta = \<lparr>meta_filter = path_name e filter_file,
                         meta_filtered_at = now_text e,
                         meta_file = get_info e files2 log_file\<rparr>\<rparr>
          in case files2 (metadata_file e log_file) of
               Some Dir \<Rightarrow> (Raised (is_a_directory (metadata_file e log_file)), files2, err)
             | _ \<Rightarrow> (Payload result_payload,
                      files2(metadata_file e log_file \<mapsto> File (json_dump e result_payload)),
                      err)))"
    unfolding filter_log_def
    by (simp only: lf ff js ks ne gate case_not_file[OF fo] option.simps node.simps sum.simps
          load_result.simps if_False if_True simp_thms option.distinct)
       (simp only: Let_def)
  also have "\<dots> = (Payload \<lparr>hits = make_hits (matched_lines st) (filter_counts st),
               meta = \<lparr>meta_filter = path_name e filter_file, meta_filtered_at = now_text e,
                       meta_file = get_info e files log_file\<rparr>\<rparr>,
      ?files2(metadata_file e log_file \<mapsto>
              File (json_dump e
                \<lparr>hits = make_hits (matched_lines st) (filter_counts st),
                 meta = \<lparr>meta_filter = path_name e filter_file, meta_filtered_at = now_text e,
                         meta_file = get_info e files log_file\<rparr>\<rparr>)),
      stderr_log st)"
    unfolding pf by (simp only: prod.case sum.case Let_def gi case_not_dir[OF 3])
  finally show ?thesis .
qed


lemma filter_log_payloadD:
  assumes run: "filter_log e files log_file filter_file overwrite = (Payload p, files', err)"
    and lo: "log_file \<noteq> output_file e log_file"
  shows "\<exists>content text j keys st.
           files log_file = Some (File content) \<and> files filter_file = Some (File text) \<and>
           json_load e text = Loaded j \<and> set_of j = Inr keys \<and> keys \<noteq> [] \<and>
           utf8_error e content = None \<and>
           (overwrite \<or> files (log_folder e log_file) = None) \<and>
           (\<forall>c. files (log_folder e log_file) \<noteq> Some (File c)) \<and>
           files (output_file e log_file) \<noteq> Some Dir \<and>
           files (metadata_file e log_file) \<noteq> Some Dir \<and>
           filter_lines (cpu_count e) (iter_order e) (readlines content) keys = Inr st"
  using run lo output_not_folder[of e log_file] metadata_not_folder[of e log_file]
    metadata_not_output[of e log_file e log_file]
  by (auto simp: filter_log_def parallel_filter_def Let_def
        split: if_splits option.splits node.splits sum.splits prod.splits load_result.splits)


lemma get_info_clock:
  "get_info (e\<lparr>now_stamp := a, now_text := b\<rparr>) files path = get_info e files path"
  by (simp add: get_info_def split: option.splits node.splits)

lemma log_folder_clock:
  "log_folder (e\<lparr>now_stamp := a, now_text := b\<rparr>) l = log_folder e l"
  by (simp add: log_folder_def)

text \<open>
  Claim C8, as amended. A first run with \<open>overwrite=True\<close> returns a payload; a second run
  with \<open>overwrite=True\<close> on the files left by the first, at another time, with the workers
  iterating over the filter set in the same order, returns a payload with the same \<open>hits\<close>
  (the total and every per-key count) and writes the same messages to \<open>sys.stderr\<close>. Its
  \<open>meta\<close> block differs in \<open>filtered_at\<close> alone, and its output files are named after the
  new time. The log file and the filter file are supposed not to be among the files the
  runs write, and the names of the second run's output files not to be directories.
\<close>

theorem rerun_same_hits:
  assumes run1: "filter_log e files log_file filter_file True = (Payload p1, files1, err1)"
    and e2: "e2 = e\<lparr>now_stamp := stamp2, now_text := text2\<rparr>"
    and log_apart: "log_file \<notin> {output_file e log_file, metadata_file e log_file,
                                 output_file e2 log_file}"
    and filter_apart: "filter_file \<notin> {output_file e log_file, metadata_file e log_file}"
    and no_dir: "files (output_file e2 log_file) \<noteq> Some Dir"
                "files (metadata_file e2 log_file) \<noteq> Some Dir"
  shows "\<exists>p2 files2. filter_log e2 files1 log_file filter_file True = (Payload p2, files2, err1)
           \<and> hits p2 = hits p1
           \<and> meta p2 = (meta p1)\<lparr>meta_filtered_at := text2\<rparr>"
proof -
  have lo: "log_file \<noteq> output_file e log_file" using log_apart by simp
  from filter_log_payloadD[OF run1 lo] obtain content spec j keys st where
    lf: "files log_file = Some (File content)" and ff: "files filter_file = Some (File spec)"
    and js: "json_load e spec = Loaded j" and ks: "set_of j = Inr keys" and ne: "keys \<noteq> []"
    and dec: "utf8_error e content = None"
    and fo: "\<forall>c. files (log_folder e log_file) \<noteq> Some (File c)"
    and od: "files (output_file e log_file) \<noteq> Some Dir"
    and md: "files (metadata_file e log_file) \<noteq> Some Dir"
    and run: "filter_lines (cpu_count e) (iter_order e) (readlines content) keys = Inr st"
    by blast
  let ?p = "\<lparr>hits = make_hits (matched_lines st) (filter_counts st),
            meta = \<lparr>meta_filter = path_name e filter_file, meta_filtered_at = now_text e,
                    meta_file = get_info e files log_file\<rparr>\<rparr>"
  let ?folder = "log_folder e log_file"
  have first: "filter_log e files log_file filter_file True =
      (Payload ?p,
       files(?folder \<mapsto> Dir, output_file e log_file \<mapsto> File (outfile st),
             metadata_file e log_file \<mapsto> File (json_dump e ?p)),
       stderr_log st)"
    by (rule filter_log_payload[OF lf ff js ks ne dec _ fo od md lo run]) simp
  have p1: "p1 = ?p"
    and files1: "files1 = files(?folder \<mapsto> Dir, output_file e log_file \<mapsto> File (outfile st),
                               metadata_file e log_file \<mapsto> File (json_dump e ?p))"
    and err1: "err1 = stderr_log st"
    using trans[OF run1[symmetric] first] by (simp_all only: prod.inject outcome.inject)
  have lfo: "log_file \<noteq> ?folder" using lf fo by auto
  have ffo: "filter_file \<noteq> ?folder" using ff fo by auto
  have folder2: "log_folder e2 log_file = ?folder" unfolding e2 by (rule log_folder_clock)
  have lf1: "files1 log_file = Some (File content)"
    unfolding files1 using lf lfo log_apart by simp
  have ff1: "files1 filter_file = Some (File spec)"
    unfolding files1 using ff ffo filter_apart by simp
  have js2: "json_load e2 spec = Loaded j" unfolding e2 using js by simp
  have dec2: "utf8_error e2 content = None" unfolding e2 using dec by simp
  have fo1: "\<forall>c. files1 (log_folder e2 log_file) \<noteq> Some (File c)"
    unfolding folder2 files1
    using output_not_folder[of e log_file] metadata_not_folder[of e log_file] by simp
  have od1: "files1 (output_file e2 log_file) \<noteq> Some Dir"
    unfolding files1
    using no_dir(1) output_not_folder[of e2 log_file] folder2 by simp
  have md1: "files1 (metadata_file e2 log_file) \<noteq> Some Dir"
    unfolding files1
    using no_dir(2) metadata_not_folder[of e2 log_file] folder2 by simp
  have lo2: "log_file \<noteq> output_file e2 log_file" using log_apart by simp
  have run2: "filter_lines (cpu_count e2) (iter_order e2) (readlines content) keys = Inr st"
    unfolding e2 using run by simp
  let ?p2 = "\<lparr>hits = make_hits (matched_lines st) (filter_counts st),
            meta = \<lparr>meta_filter = path_name e2 filter_file, meta_filtered_at = now_text e2,
                    meta_file = get_info e2 files1 log_file\<rparr>\<rparr>"
  have second: "filter_log e2 files1 log_file filter_file True =
      (Payload ?p2,
       files1(log_folder e2 log_file \<mapsto> Dir, output_file e2 log_file \<mapsto> File (outfile st),
             metadata_file e2 log_file \<mapsto> File (json_dump e2 ?p2)),
       stderr_log st)"
    by (rule filter_log_payload[OF lf1 ff1 js2 ks ne dec2 _ fo1 od1 md1 lo2 run2]) simp
  have info: "get_info e2 files1 log_file = get_info e files log_file"
    unfolding e2 get_info_clock by (rule get_info_cong) (simp add: lf lf1)
  have "hits ?p2 = hits p1" unfolding p1 by simp
  moreover have "meta ?p2 = (meta p1)\<lparr>meta_filtered_at := text2\<rparr>"
    unfolding p1 info by (simp add: e2)
  ultimately show ?thesis using second err1 by blast
qed

theorem rerun_same_hits_witness:
  "hits_of (fst (filter_log
       (demo_env\<lparr>now_stamp := ''20250101_120500'', now_text := ''01-01-2025 12:05:00''\<rparr>)
       (fst (snd (filter_log demo_env
          (demo_files (text_lines [''ERROR x'', ''INFO y'']) (spec_text [''ERR'', ''ERROR'']))
          ''app.log'' ''f.json'' True)))
       ''app.log'' ''f.json'' True)) =
   hits_of (fst (filter_log demo_env
      (demo_files (text_lines [''ERROR x'', ''INFO y'']) (spec_text [''ERR'', ''ERROR'']))
      ''app.log'' ''f.json'' True))
 \<and> hits_of (fst (filter_log demo_env
      (demo_files (text_lines [''ERROR x'', ''INFO y'']) (spec_text [''ERR'', ''ERROR'']))
      ''app.log'' ''f.json'' True)) = Some [(KStr ''total'', 1), (KStr ''ERR'', 1)]"
proof -
  let ?files = "demo_files (text_lines [''ERROR x'', ''INFO y'']) (spec_text [''ERR'', ''ERROR''])"
  let ?e2 = "demo_env\<lparr>now_stamp := ''20250101_120500'', now_text := ''01-01-2025 12:05:00''\<rparr>"
  let ?r1 = "filter_log demo_env ?files ''app.log'' ''f.json'' True"
  have h1: "hits_of (fst ?r1) = Some [(KStr ''total'', 1), (KStr ''ERR'', 1)]"
    by code_simp
  then obtain p1 where p1: "fst ?r1 = Payload p1"
    by (cases "fst ?r1") (simp_all add: hits_of_def)
  have run1: "?r1 = (Payload p1, fst (snd ?r1), snd (snd ?r1))"
    using p1 by (simp add: prod_eq_iff)
  have log_apart: "''app.log'' \<notin> {output_file demo_env ''app.log'', metadata_file demo_env ''app.log'',
                                 output_file ?e2 ''app.log''}"
    by (simp add: output_file_def metadata_file_def log_folder_def demo_env_def)
  have filter_apart: "''f.json'' \<notin> {output_file demo_env ''app.log'', metadata_file demo_env ''app.log''}"
    by (simp add: output_file_def metadata_file_def log_folder_def demo_env_def)
  have no_dir: "?files (output_file ?e2 ''app.log'') \<noteq> Some Dir"
               "?files (metadata_file ?e2 ''app.log'') \<noteq> Some Dir"
    by (simp_all add: output_file_def metadata_file_def log_folder_def demo_env_def demo_files_def)
  from rerun_same_hits[OF run1 refl log_apart filter_apart no_dir]
  obtain p2 files2 where
    "filter_log ?e2 (fst (snd ?r1)) ''app.log'' ''f.json'' True = (Payload p2, files2, snd (snd ?r1))"
    "hits p2 = hits p1"
    by blast
  then have "hits_of (fst (filter_log ?e2 (fst (snd ?r1)) ''app.log'' ''f.json'' True)) =
             hits_of (fst ?r1)"
    using p1 by (simp add: hits_of_def)
  with h1 show ?thesis by simp
qed

section \<open>The \<open>hits\<close> dictionary\<close>

lemma fold_update_pairs:
  "distinct (map fst kvs) \<Longrightarrow> fst ` set kvs \<inter> fst ` set d = {} \<Longrightarrow>
   fold (\<lambda>(k, v) d. AList.update k v d) kvs d = d @ kvs"
proof (induction kvs arbitrary: d)
  case Nil
  then show ?case by simp
next
  case (Cons kv kvs)
  obtain k v where kv: "kv = (k, v)" by (cases kv)
  have "AList.update k v d = d @ [(k, v)]"
    using Cons.prems kv by (intro update_append_new) auto
  moreover have "fst ` set kvs \<inter> fst ` set (d @ [(k, v)]) = {}"
    using Cons.prems kv by auto
  ultimately show ?case using Cons.IH[of "d @ [(k, v)]"] Cons.prems kv by simp
qed

lemma set_sorted_desc: "set (sorted_desc fc) = set fc"
  by (simp add: sorted_desc_def)

lemma distinct_sorted_desc: "distinct (map fst (sorted_desc fc)) = distinct (map fst fc)"
  by (simp add: distinct_map sorted_desc_def)

lemma total_insort: "total_count (insort_key f x xs) = snd x + total_count xs"
  by (induction xs) auto

lemma total_sort: "total_count (sort_key f xs) = total_count xs"
  by (induction xs) (auto simp: total_insort)

lemma total_rev: "total_count (rev xs) = total_count xs"
  by (simp add: total_count_def rev_map[symmetric])

lemma total_sorted_desc: "total_count (sorted_desc fc) = total_count fc"
  by (simp add: sorted_desc_def total_rev total_sort)

lemma total_positive: "total_count [(k, c) \<leftarrow> xs. c > 0] = total_count xs"
  by (induction xs) auto

lemma descending_sorted_desc: "sorted_wrt (\<lambda>a b. snd b \<le> snd a) (sorted_desc fc)"
proof -
  have "sorted (map snd (sort_key snd (rev fc)))" by (rule sorted_sort_key)
  then have "sorted_wrt (\<lambda>a b. snd a \<le> snd b) (sort_key snd (rev fc))"
    by (simp add: sorted_map)
  then show ?thesis unfolding sorted_desc_def by (simp add: sorted_wrt_rev)
qed

lemma descending_positive:
  "sorted_wrt (\<lambda>a b. snd b \<le> snd a) [(k, c) \<leftarrow> sorted_desc fc. c > 0]"
  using descending_sorted_desc by (rule sorted_wrt_filter)

text \<open>Without a filter key \<open>total\<close>, \<open>hits\<close> is the total followed by the positive counts.\<close>

lemma hits_without_total:
  assumes "distinct (map fst fc)" and "KStr ''total'' \<notin> fst ` set fc"
  shows "make_hits m fc = (KStr ''total'', m) # [(k, c) \<leftarrow> sorted_desc fc. c > 0]"
proof -
  let ?pos = "[(k, c) \<leftarrow> sorted_desc fc. c > 0]"
  have d: "distinct (map fst ?pos)"
    using assms(1) by (simp add: distinct_map_filter distinct_sorted_desc)
  have inner: "fold (\<lambda>(k, v) d. AList.update k v d) ?pos [] = ?pos"
    using fold_update_pairs[OF d, of "[]"] by simp
  have "fst ` set ?pos \<inter> fst ` set [(KStr ''total'', m)] = {}"
    using assms(2) by (auto simp: set_sorted_desc)
  from fold_update_pairs[OF d this] show ?thesis
    unfolding make_hits_def inner by simp
qed

lemma distinct_merge_counts:
  "distinct (map fst fc) \<Longrightarrow> distinct (map fst (merge_counts wc fc))"
  unfolding merge_counts_def
  by (induction wc arbitrary: fc) (auto simp: distinct_update)

lemma distinct_foldl_merge:
  "distinct (map fst fc) \<Longrightarrow> distinct (map fst (foldl merge_result fc rs))"
  by (induction rs arbitrary: fc)
     (auto simp: merge_result_def distinct_merge_counts split: worker_counts.splits)

lemma filter_counts_distinct:
  "filter_lines cpu order lines keys = Inr st \<Longrightarrow> distinct (map fst (filter_counts st))"
  by (auto simp: filter_lines_def Let_def counts_foldl_collect agg_init_def
        intro!: distinct_foldl_merge split: if_splits)

text \<open>
  For a filter set without the key \<open>total\<close>: \<open>hits\<close> is \<open>"total"\<close> with the number of
  matched lines, then the keys with a positive count in descending order of count, and
  these counts add up to the total.
\<close>

lemma hits_invariants_without_total:
  assumes "filter_lines cpu order lines keys = Inr st"
    and "KStr ''total'' \<notin> fst ` set (filter_counts st)"
  shows "\<exists>rest. make_hits (matched_lines st) (filter_counts st) =
                  (KStr ''total'', matched_lines st) # rest
             \<and> total_count rest = matched_lines st
             \<and> sorted_wrt (\<lambda>a b. snd b \<le> snd a) rest
             \<and> set rest = {kc \<in> set (filter_counts st). snd kc > 0}"
proof -
  let ?rest = "[(k, c) \<leftarrow> sorted_desc (filter_counts st). c > 0]"
  have "make_hits (matched_lines st) (filter_counts st) = (KStr ''total'', matched_lines st) # ?rest"
    by (rule hits_without_total[OF filter_counts_distinct[OF assms(1)] assms(2)])
  moreover have "total_count ?rest = matched_lines st"
    using filter_lines_total[OF assms(1)] by (simp add: total_positive total_sorted_desc)
  moreover have "sorted_wrt (\<lambda>a b. snd b \<le> snd a) ?rest" by (rule descending_positive)
  moreover have "set ?rest = {kc \<in> set (filter_counts st). snd kc > 0}"
    by (auto simp: set_sorted_desc)
  ultimately show ?thesis by blast
qed


end
